theory Spec2Isabelle
  imports Complex_Main "HOL-Library.AList" "HOL-Library.Log_Nat"
begin

section \<open>JavaScript values and the records of the external IFC parser\<close>

text \<open>
  The viewer talks to an external parser whose answers are untyped (\<^verbatim>\<open>Promise<any>\<close>).
  Only three shapes of scalar are inspected by the code: \<^verbatim>\<open>undefined\<close>, numbers and
  strings. Identifiers (\<^verbatim>\<open>expressID\<close>, \<^verbatim>\<open>modelID\<close>) and the \<^verbatim>\<open>type\<close> field are such
  scalars.
\<close>

datatype jsval = JUndefined | JNum int | JStr string

text \<open>JavaScript truthiness of a scalar, as used by \<^verbatim>\<open>||\<close>, \<^verbatim>\<open>&&\<close> and \<^verbatim>\<open>if\<close>.\<close>

fun truthy :: "jsval \<Rightarrow> bool" where
  "truthy JUndefined = False"
| "truthy (JNum n) = (n \<noteq> 0)"
| "truthy (JStr s) = (s \<noteq> [])"

text \<open>The idiom \<^verbatim>\<open>x || 0\<close>.\<close>

definition or_zero :: "jsval \<Rightarrow> jsval" where
  "or_zero v = (if truthy v then v else JNum 0)"

text \<open>
  What can go wrong in a step: an awaited parser promise rejects (or a synchronous
  parser call throws), or the code itself dereferences a value of the wrong shape.
\<close>

datatype js_error = Rejected | TypeError

text \<open>
  \<^verbatim>\<open>String.prototype.toUpperCase\<close> is a built-in of the JavaScript runtime, with the case
  mapping of Unicode. It is not part of the program and is taken as a parameter: every
  statement below that does not fix a runtime holds for every such function.
\<close>

record JSRuntime =
  toUpperCase :: "string \<Rightarrow> string"

text \<open>
  On a string of ASCII characters the built-in changes exactly the lower-case letters, code
  97 to 122, each of which loses the bit of weight 32. \<open>asciiRuntime\<close> is used only on
  such strings.
\<close>

definition toUpperChar :: "char \<Rightarrow> char" where
  "toUpperChar c =
     (if 97 \<le> (of_char c :: nat) \<and> (of_char c :: nat) \<le> 122
      then (case c of Char b0 b1 b2 b3 b4 b5 b6 b7 \<Rightarrow> Char b0 b1 b2 b3 b4 False b6 b7)
      else c)"

definition asciiRuntime :: JSRuntime where
  "asciiRuntime = \<lparr>toUpperCase = map toUpperChar\<rparr>"

text \<open>\<^verbatim>\<open>String.prototype.includes\<close>: the argument occurs as a contiguous part.\<close>

fun str_includes :: "string \<Rightarrow> string \<Rightarrow> bool" where
  "str_includes [] t = (t = [])"
| "str_includes (c # cs) t = (take (length t) (c # cs) = t \<or> str_includes cs t)"

text \<open>
  One entry of a property set's \<^verbatim>\<open>HasProperties\<close> array. The code reads only
  \<^verbatim>\<open>p.Name && p.Name.value === propName\<close>, which can hold only for a \<^verbatim>\<open>Name\<close> that is
  present and wraps a string; \<open>None\<close> stands for every other entry.
\<close>

record ifc_property =
  prop_Name :: "string option"

text \<open>
  The open-schema record returned by \<^verbatim>\<open>getItemProperties\<close>; the entries of
  \<^verbatim>\<open>getPropertySets\<close> are records of the same kind. Only the fields the code reads are
  kept. An optional field is \<open>None\<close> when it is absent (falsy); \<open>Name\<close> is the string wrapped
  by \<^verbatim>\<open>Name\<close> when there is one, \<open>constructor_name\<close> is \<^verbatim>\<open>constructor.name\<close>, and
  \<open>HasAssociations\<close> lists the \<^verbatim>\<open>value\<close> of each association handle. A promise that
  resolves is taken to resolve to such a record, not to \<^verbatim>\<open>null\<close>.
\<close>

record ifc_item =
  itype :: jsval
  constructor_name :: "string option"
  Name :: "string option"
  item_expressID :: jsval
  HasAssociations :: "jsval list option"
  HasProperties :: "ifc_property list option"

section \<open>Geometry\<close>

text \<open>
  Coordinates are modelled as real numbers. A \<^verbatim>\<open>Box3\<close> is \<open>None\<close> when it is empty
  (never expanded), otherwise its minimum and maximum corner.
\<close>

type_synonym vec3 = "real \<times> real \<times> real"

type_synonym box3 = "(vec3 \<times> vec3) option"

definition vadd :: "vec3 \<Rightarrow> vec3 \<Rightarrow> vec3" where
  "vadd a b = (case a of (ax, ay, az) \<Rightarrow> case b of (bx, by, bz) \<Rightarrow> (ax + bx, ay + by, az + bz))"

definition vneg :: "vec3 \<Rightarrow> vec3" where
  "vneg a = (case a of (ax, ay, az) \<Rightarrow> (- ax, - ay, - az))"

definition vmin :: "vec3 \<Rightarrow> vec3 \<Rightarrow> vec3" where
  "vmin a b = (case a of (ax, ay, az) \<Rightarrow> case b of (bx, by, bz) \<Rightarrow> (min ax bx, min ay by, min az bz))"

definition vmax :: "vec3 \<Rightarrow> vec3 \<Rightarrow> vec3" where
  "vmax a b = (case a of (ax, ay, az) \<Rightarrow> case b of (bx, by, bz) \<Rightarrow> (max ax bx, max ay by, max az bz))"

definition expandByPoint :: "vec3 \<Rightarrow> box3 \<Rightarrow> box3" where
  "expandByPoint p b = (case b of None \<Rightarrow> Some (p, p) | Some (lo, hi) \<Rightarrow> Some (vmin lo p, vmax hi p))"

definition setFromPoints :: "vec3 list \<Rightarrow> box3" where
  "setFromPoints ps = fold expandByPoint ps None"

definition box_union :: "box3 \<Rightarrow> box3 \<Rightarrow> box3" where
  "box_union a b =
     (case b of None \<Rightarrow> a
      | Some (blo, bhi) \<Rightarrow> (case a of None \<Rightarrow> b | Some (alo, ahi) \<Rightarrow> Some (vmin alo blo, vmax ahi bhi)))"

definition corners :: "vec3 \<Rightarrow> vec3 \<Rightarrow> vec3 list" where
  "corners lo hi =
     (case lo of (lx, ly, lz) \<Rightarrow> case hi of (hx, hy, hz) \<Rightarrow>
        [(lx, ly, lz), (lx, ly, hz), (lx, hy, lz), (lx, hy, hz),
         (hx, ly, lz), (hx, ly, hz), (hx, hy, lz), (hx, hy, hz)])"

text \<open>\<^verbatim>\<open>Box3.applyMatrix4\<close>: an empty box stays empty, otherwise the box of the eight images.\<close>

definition applyMatrix4 :: "(vec3 \<Rightarrow> vec3) \<Rightarrow> box3 \<Rightarrow> box3" where
  "applyMatrix4 M b = (case b of None \<Rightarrow> None | Some (lo, hi) \<Rightarrow> setFromPoints (map M (corners lo hi)))"

definition getCenter :: "vec3 \<Rightarrow> vec3 \<Rightarrow> vec3" where
  "getCenter lo hi =
     (case lo of (lx, ly, lz) \<Rightarrow> case hi of (hx, hy, hz) \<Rightarrow> ((lx + hx) / 2, (ly + hy) / 2, (lz + hz) / 2))"

text \<open>
  A \<^verbatim>\<open>BufferGeometry\<close>: its vertex positions and its cached bounding box (\<open>None\<close> is
  \<^verbatim>\<open>null\<close>, not yet computed). The cached bounding sphere is not modelled.
\<close>

record geometry =
  positions :: "vec3 list"
  boundingBox :: "box3 option"

definition computeBoundingBox :: "geometry \<Rightarrow> geometry" where
  "computeBoundingBox g = g\<lparr>boundingBox := Some (setFromPoints (positions g))\<rparr>"

text \<open>
  \<^verbatim>\<open>geometry.translate(x, y, z)\<close> rewrites every vertex and refreshes a bounding box
  that was already cached.
\<close>

definition translate :: "geometry \<Rightarrow> vec3 \<Rightarrow> geometry" where
  "translate g t =
     (let ps = map (\<lambda>v. vadd v t) (positions g)
      in g\<lparr>positions := ps,
            boundingBox := (case boundingBox g of None \<Rightarrow> None | Some _ \<Rightarrow> Some (setFromPoints ps))\<rparr>)"

text \<open>
  A \<^verbatim>\<open>THREE.Mesh\<close> met by \<^verbatim>\<open>traverse\<close>: the identifiers attached to it, its geometry
  and its world transform on points.
\<close>

record mesh =
  mesh_expressID :: jsval
  mesh_modelID :: jsval
  mesh_geometry :: "geometry option"
  matrixWorld :: "vec3 \<Rightarrow> vec3"

text \<open>
  A loaded model: the meshes \<^verbatim>\<open>traverse\<close> visits, in visiting order, the container's
  position, and the \<^verbatim>\<open>offset\<close> property (\<open>None\<close> while the property is undefined).
\<close>

record model =
  meshes :: "mesh list"
  position :: vec3
  offset :: "vec3 option"

text \<open>A highlight subset mesh returned by \<^verbatim>\<open>createSubset\<close>.\<close>

record subset =
  subset_modelID :: jsval
  subset_geometry :: "geometry option"

section \<open>The external parser\<close>

text \<open>
  The parser calls the code makes, as functions of their arguments. A call either fails
  (\<open>Inl\<close>) or yields a value. \<^verbatim>\<open>getPropertySets\<close> may resolve to \<^verbatim>\<open>null\<close> (\<open>Inr None\<close>),
  which the code tests for. \<open>createSubset\<close> is called with the model and element
  identifiers (material, scene and \<^verbatim>\<open>removePrevious\<close> are the same in every call).
  \<open>removeSubset_throws\<close> tells whether \<^verbatim>\<open>removeSubset\<close> throws for a model identifier; the
  code wraps that call in a \<^verbatim>\<open>try\<close>. \<open>load\<close> is the outcome of \<^verbatim>\<open>loader.load(url, ...)\<close>.
\<close>

record IFCLoader =
  getItemProperties :: "jsval \<Rightarrow> jsval \<Rightarrow> js_error + ifc_item"
  getPropertySets :: "jsval \<Rightarrow> jsval \<Rightarrow> js_error + ifc_item list option"
  createSubset :: "jsval \<Rightarrow> jsval \<Rightarrow> js_error + subset"
  removeSubset_throws :: "jsval \<Rightarrow> bool"
  load :: "string \<Rightarrow> js_error + model"

datatype loader_call = RemoveSubset jsval | CreateSubset jsval jsval

section \<open>IFCManager\<close>

text \<open>
  The mutable fields of \<^verbatim>\<open>IFCManager\<close> that the operations below read or write, the
  models held by the scene, the subset calls issued to the parser so far, and the console
  output.
\<close>

record IFCManager =
  currentModel :: "model option"
  currentSubset :: "subset option"
  scene :: "model list"
  subset_calls :: "loader_call list"
  console :: "string list"

definition getCurrentModel :: "IFCManager \<Rightarrow> model option" where
  "getCurrentModel s = currentModel s"

text \<open>
  \<^verbatim>\<open>disposeCurrentModel\<close>: removes the model from the scene and forgets it. Releasing the
  GPU buffers of geometries and materials has no effect on the modelled fields.
\<close>

definition disposeCurrentModel :: "IFCManager \<Rightarrow> IFCManager" where
  "disposeCurrentModel s =
     (case currentModel s of
        None \<Rightarrow> s
      | Some m \<Rightarrow> s\<lparr>currentModel := None,
                     scene := remove1 m (scene s),
                     console := console s @ [''Disposing previous model...'']\<rparr>)"

text \<open>The first pass of \<^verbatim>\<open>centerModel\<close>: every geometry gets its bounding box computed.\<close>

definition withBoundingBox :: "mesh \<Rightarrow> mesh" where
  "withBoundingBox m =
     (case mesh_geometry m of None \<Rightarrow> m | Some g \<Rightarrow> m\<lparr>mesh_geometry := Some (computeBoundingBox g)\<rparr>)"

definition meshWorldBox :: "mesh \<Rightarrow> box3" where
  "meshWorldBox m =
     (case mesh_geometry m of
        None \<Rightarrow> None
      | Some g \<Rightarrow> applyMatrix4 (matrixWorld m) (setFromPoints (positions g)))"

definition overallBox :: "mesh list \<Rightarrow> box3" where
  "overallBox ms = fold (\<lambda>m b. box_union b (meshWorldBox m)) ms None"

definition shiftMesh :: "vec3 \<Rightarrow> mesh \<Rightarrow> mesh" where
  "shiftMesh center m =
     (case mesh_geometry m of
        None \<Rightarrow> m
      | Some g \<Rightarrow> m\<lparr>mesh_geometry := Some (computeBoundingBox (translate g (vneg center)))\<rparr>)"

text \<open>
  \<^verbatim>\<open>centerModel\<close> returns the model as it leaves it and the warnings it printed. Both
  early returns leave \<open>offset\<close> as it was.
\<close>

definition centerModel :: "model \<Rightarrow> model \<times> string list" where
  "centerModel m =
     (if meshes m = [] then (m, [''No meshes found in model to center''])
      else
        (let ms = map withBoundingBox (meshes m) in
         case overallBox (meshes m) of
           None \<Rightarrow> (m\<lparr>meshes := ms\<rparr>, [''Computed bounding box is empty''])
         | Some (lo, hi) \<Rightarrow>
             (let center = getCenter lo hi
              in (m\<lparr>meshes := map (shiftMesh center) ms,
                     position := (0, 0, 0),
                     offset := Some center\<rparr>, []))))"

text \<open>
  \<^verbatim>\<open>loadIFC\<close>, after the parser is ready: the previous model is disposed, the parser
  loads the file, and on success the new model is added to the scene, made current and
  centred (the scene and \<open>currentModel\<close> hold the same object, so both see the centring).
  On failure the error is rethrown to the caller. Progress notifications and the edge
  outlines of \<^verbatim>\<open>setupEdges\<close> do not touch the modelled fields.
\<close>

definition loadIFC :: "IFCLoader \<Rightarrow> string \<Rightarrow> IFCManager \<Rightarrow> (js_error + model) \<times> IFCManager" where
  "loadIFC L url s =
     (let s1 = disposeCurrentModel s in
      case load L url of
        Inl e \<Rightarrow> (Inl e, s1\<lparr>console := console s1 @ [''Error loading IFC model:'']\<rparr>)
      | Inr ifcModel \<Rightarrow>
          (case centerModel ifcModel of (centered, warnings) \<Rightarrow>
             (Inr centered,
              s1\<lparr>currentModel := Some centered,
                 scene := scene s1 @ [centered],
                 console := console s1 @ warnings\<rparr>)))"

text \<open>
  \<^verbatim>\<open>removeHighlight\<close>: when a subset is recorded, the parser is asked to remove it; only if
  that call returns is \<open>currentSubset\<close> reset, otherwise the error is logged.
\<close>

definition removeHighlight :: "IFCLoader \<Rightarrow> IFCManager \<Rightarrow> IFCManager" where
  "removeHighlight L s =
     (case currentSubset s of
        None \<Rightarrow> s
      | Some sub \<Rightarrow>
          (let modelID = or_zero (subset_modelID sub);
               s1 = s\<lparr>subset_calls := subset_calls s @ [RemoveSubset modelID]\<rparr>
           in if removeSubset_throws L modelID
              then s1\<lparr>console := console s1 @ [''Error removing highlight:'']\<rparr>
              else s1\<lparr>currentSubset := None\<rparr>))"

text \<open>The shift applied to a fresh subset: only when the model has an offset and the subset a geometry.\<close>

definition applyOffset :: "vec3 option \<Rightarrow> subset \<Rightarrow> subset" where
  "applyOffset off sub =
     (case off of
        None \<Rightarrow> sub
      | Some c \<Rightarrow>
          (case subset_geometry sub of
             None \<Rightarrow> sub
           | Some g \<Rightarrow> sub\<lparr>subset_geometry := Some (translate g (vneg c))\<rparr>))"

definition highlightElement :: "IFCLoader \<Rightarrow> jsval \<Rightarrow> jsval \<Rightarrow> IFCManager \<Rightarrow> IFCManager" where
  "highlightElement L modelID expressID s =
     (let s1 = removeHighlight L s in
      case currentModel s1 of
        None \<Rightarrow> s1
      | Some m \<Rightarrow>
          (let s2 = s1\<lparr>subset_calls := subset_calls s1 @ [CreateSubset modelID expressID]\<rparr> in
           case createSubset L modelID expressID of
             Inl e \<Rightarrow> s2\<lparr>console := console s2 @ [''Error creating highlight subset:'']\<rparr>
           | Inr sub \<Rightarrow> s2\<lparr>currentSubset := Some (applyOffset (offset m) sub)\<rparr>))"

section \<open>Property extraction\<close>

text \<open>
  Step 3 of \<^verbatim>\<open>getElementProperties\<close>. The \<^verbatim>\<open>try\<close> encloses the whole loop: the first
  association whose fetch fails ends the loop, and the materials pushed so far are kept.
\<close>

fun collectMaterials :: "IFCLoader \<Rightarrow> jsval \<Rightarrow> jsval list \<Rightarrow> ifc_item list \<Rightarrow> ifc_item list" where
  "collectMaterials L modelID [] materials = materials"
| "collectMaterials L modelID (assoc # rest) materials =
     (case getItemProperties L modelID assoc of
        Inl e \<Rightarrow> materials
      | Inr assocProps \<Rightarrow>
          collectMaterials L modelID rest
            (if itype assocProps = JStr ''IFCMATERIAL'' \<or> Name assocProps \<noteq> None
             then materials @ [assocProps] else materials))"

text \<open>
  The type-level data of step 4: the type's own record, and its property sets when their
  fetch succeeded (the \<^verbatim>\<open>propertySets\<close> property is attached only then).
\<close>

record type_properties =
  type_item :: ifc_item
  type_propertySets :: "ifc_item list option option"

definition fetchTypeProperties :: "IFCLoader \<Rightarrow> jsval \<Rightarrow> ifc_item \<Rightarrow> type_properties option" where
  "fetchTypeProperties L modelID properties =
     (if truthy (itype properties) then
        (case getItemProperties L modelID (itype properties) of
           Inl e \<Rightarrow> None
         | Inr tp \<Rightarrow>
             (case getPropertySets L modelID (itype properties) of
                Inl e \<Rightarrow> Some \<lparr>type_item = tp, type_propertySets = None\<rparr>
              | Inr typePsets \<Rightarrow> Some \<lparr>type_item = tp, type_propertySets = Some typePsets\<rparr>))
      else None)"

text \<open>
  Step 5. Here the \<^verbatim>\<open>try\<close> is inside the loop: an association that fails is skipped.
  When \<^verbatim>\<open>propertySets\<close> is \<^verbatim>\<open>null\<close> the \<^verbatim>\<open>push\<close> itself throws inside that \<^verbatim>\<open>try\<close>, so
  nothing is ever appended.
\<close>

fun fallbackPsets :: "IFCLoader \<Rightarrow> jsval \<Rightarrow> jsval list \<Rightarrow> ifc_item list option \<Rightarrow> ifc_item list option" where
  "fallbackPsets L modelID [] propertySets = propertySets"
| "fallbackPsets L modelID (assoc # rest) propertySets =
     (case getItemProperties L modelID assoc of
        Inl e \<Rightarrow> fallbackPsets L modelID rest propertySets
      | Inr assocProps \<Rightarrow>
          (if itype assocProps = JStr ''IFCPROPERTYSET'' \<or> itype assocProps = JStr ''IFCELEMENTQUANTITY''
           then (case getItemProperties L modelID (item_expressID assocProps) of
                   Inl e \<Rightarrow> fallbackPsets L modelID rest propertySets
                 | Inr fullSet \<Rightarrow>
                     fallbackPsets L modelID rest
                       (case propertySets of None \<Rightarrow> None | Some ps \<Rightarrow> Some (ps @ [fullSet])))
           else fallbackPsets L modelID rest propertySets))"

record property_bundle =
  bundle_properties :: ifc_item
  bundle_propertySets :: "ifc_item list option"
  bundle_materials :: "ifc_item list"
  bundle_typeProperties :: "type_properties option"
  bundle_expressID :: jsval
  bundle_modelID :: jsval

text \<open>
  \<^verbatim>\<open>getElementProperties\<close>. \<open>None\<close> is the \<^verbatim>\<open>null\<close> result. The fetches of steps 1 and 2
  stand directly under the outer \<^verbatim>\<open>try\<close>, whose handler returns \<^verbatim>\<open>null\<close>.
\<close>

definition getElementProperties :: "IFCLoader \<Rightarrow> mesh \<Rightarrow> property_bundle option" where
  "getElementProperties L m =
     (let expressID = mesh_expressID m in
      if expressID = JUndefined then None
      else
        (let modelID = or_zero (mesh_modelID m) in
         case getItemProperties L modelID expressID of
           Inl e \<Rightarrow> None
         | Inr properties \<Rightarrow>
             (case getPropertySets L modelID expressID of
                Inl e \<Rightarrow> None
              | Inr propertySets \<Rightarrow>
                  (let materials =
                         (case HasAssociations properties of
                            None \<Rightarrow> []
                          | Some assocs \<Rightarrow> collectMaterials L modelID assocs []);
                       typeProperties = fetchTypeProperties L modelID properties;
                       propertySets' =
                         (case HasAssociations properties of
                            None \<Rightarrow> propertySets
                          | Some assocs \<Rightarrow>
                              (if propertySets = None \<or> propertySets = Some []
                               then fallbackPsets L modelID assocs propertySets
                               else propertySets))
                   in Some \<lparr>bundle_properties = properties,
                            bundle_propertySets = propertySets',
                            bundle_materials = materials,
                            bundle_typeProperties = typeProperties,
                            bundle_expressID = expressID,
                            bundle_modelID = modelID\<rparr>))))"

section \<open>Numbers\<close>

text \<open>
  A JavaScript number is an IEEE-754 double, and every arithmetic operation returns the
  double nearest to the exact result, ties going to the even significand. The positive
  doubles of the normal range are the rationals \<open>k * 2 ^ (e - 52)\<close> with
  \<open>2 ^ 52 \<le> k < 2 ^ 53\<close>. \<open>roundHalfEven\<close> is rounding to the nearest integer with ties
  to even, \<open>binade x\<close> is the exponent \<open>e\<close> with \<open>2 ^ e \<le> x < 2 ^ (e + 1)\<close>, and
  \<open>toDouble x\<close> is the double nearest to a rational \<open>x\<close>. The only operands met below are a
  quotient of two array lengths, the smaller one first and both below \<open>2 ^ 32\<close>, and its
  product by 100, so neither subnormal numbers nor overflow can occur.
\<close>

definition roundHalfEven :: "rat \<Rightarrow> int" where
  "roundHalfEven m =
     (let f = \<lfloor>m\<rfloor>; r = m - of_int f
      in if r < 1 / 2 then f else if 1 / 2 < r then f + 1 else if even f then f else f + 1)"

definition binade :: "rat \<Rightarrow> int" where
  "binade x =
     (case quotient_of x of (a, b) \<Rightarrow>
        (let l = bitlen a - bitlen b in if 2 powi l \<le> x then l else l - 1))"

definition toDouble :: "rat \<Rightarrow> rat" where
  "toDouble x =
     (if x \<le> 0 then 0
      else (let ulp = 2 powi (binade x - 52) in of_int (roundHalfEven (x / ulp)) * ulp))"

text \<open>\<^verbatim>\<open>Math.round\<close> yields the integer nearest to its argument, a half going upwards.\<close>

definition Math_round :: "rat \<Rightarrow> int" where
  "Math_round y = \<lfloor>y + 1 / 2\<rfloor>"

section \<open>PropertyValidator\<close>

text \<open>
  \<open>requiredProperties\<close> is the rule's object in the order \<^verbatim>\<open>Object.entries\<close> lists it;
  \<open>missingProperties\<close> is an object built by assignment, kept as an association list of
  its own properties in insertion order.
\<close>

record ValidationRule =
  ifcClass :: string
  requiredPsets :: "string list"
  requiredProperties :: "(string \<times> string list) list"

record ValidationResult =
  elementID :: jsval
  modelID :: jsval
  result_ifcClass :: string
  missingPsets :: "string list"
  missingProperties :: "(string \<times> string list) list"
  passed :: bool

text \<open>
  A \<^verbatim>\<open>for ... of\<close> loop whose body may throw: the body turns the loop state into a new
  state or into an error, and the first error ends the loop.
\<close>

fun forOf :: "('a \<Rightarrow> 's \<Rightarrow> js_error + 's) \<Rightarrow> 'a list \<Rightarrow> 's \<Rightarrow> js_error + 's" where
  "forOf body [] s = Inr s"
| "forOf body (x # xs) s = (case body x s of Inl e \<Rightarrow> Inl e | Inr s' \<Rightarrow> forOf body xs s')"

text \<open>
  \<^verbatim>\<open>propertySets.find(ps => ps.Name && ps.Name.value === name)\<close>. The parser's answer
  may be \<^verbatim>\<open>null\<close> (\<open>None\<close>); then the member access \<^verbatim>\<open>propertySets.find\<close> throws. The
  access is made once for every required name, so a \<^verbatim>\<open>null\<close> answer is harmless as
  long as no applicable rule requires anything.
\<close>

definition findPset :: "ifc_item list option \<Rightarrow> string \<Rightarrow> js_error + ifc_item option" where
  "findPset propertySets name =
     (case propertySets of
        None \<Rightarrow> Inl TypeError
      | Some sets \<Rightarrow> Inr (List.find (\<lambda>ps. Name ps = Some name) sets))"

text \<open>The body of the loop over \<^verbatim>\<open>rule.requiredPsets\<close>, on the pair \<open>(missingPsets, hasError)\<close>.\<close>

definition checkPset ::
  "ifc_item list option \<Rightarrow> string \<Rightarrow> string list \<times> bool \<Rightarrow> js_error + string list \<times> bool" where
  "checkPset propertySets reqPset acc =
     (case acc of (missing, hasError) \<Rightarrow>
        (case findPset propertySets reqPset of
           Inl e \<Rightarrow> Inl e
         | Inr None \<Rightarrow> Inr (if reqPset \<in> set missing then missing else missing @ [reqPset], True)
         | Inr (Some foundPset) \<Rightarrow> Inr (missing, hasError)))"

definition checkPsets ::
  "ifc_item list option \<Rightarrow> string list \<Rightarrow> string list \<times> bool \<Rightarrow> js_error + string list \<times> bool" where
  "checkPsets propertySets reqPsets acc = forOf (checkPset propertySets) reqPsets acc"

text \<open>
  \<open>missingProperties\<close> starts as the literal \<^verbatim>\<open>{}\<close>, so a lookup that finds no own
  property falls through to \<^verbatim>\<open>Object.prototype\<close>. These are the property names that
  \<^verbatim>\<open>Object.prototype\<close> answers; each answer is a function or an object, hence truthy,
  and none of them has an \<^verbatim>\<open>includes\<close> or a \<^verbatim>\<open>push\<close> method.
\<close>

definition objectPrototypeMembers :: "string list" where
  "objectPrototypeMembers =
     [''constructor'', ''__proto__'', ''hasOwnProperty'', ''isPrototypeOf'',
      ''propertyIsEnumerable'', ''toLocaleString'', ''toString'', ''valueOf'',
      ''__defineGetter__'', ''__defineSetter__'', ''__lookupGetter__'', ''__lookupSetter__'']"

text \<open>What \<^verbatim>\<open>missingProperties[psetName]\<close> evaluates to.\<close>

datatype member = Own "string list" | Inherited | Undefined

definition getMember :: "(string \<times> string list) list \<Rightarrow> string \<Rightarrow> member" where
  "getMember mp psetName =
     (case map_of mp psetName of
        Some l \<Rightarrow> Own l
      | None \<Rightarrow> if psetName \<in> set objectPrototypeMembers then Inherited else Undefined)"

text \<open>
  \<^verbatim>\<open>if (!missingProperties[psetName]) missingProperties[psetName] = [];\<close> An array is
  truthy even when empty, and so is an inherited member: only an undefined lookup
  assigns.
\<close>

definition ensureEntry :: "string \<Rightarrow> (string \<times> string list) list \<Rightarrow> (string \<times> string list) list" where
  "ensureEntry psetName mp =
     (case getMember mp psetName of Undefined \<Rightarrow> AList.update psetName [] mp | Own l \<Rightarrow> mp | Inherited \<Rightarrow> mp)"

text \<open>The list recorded under a name of \<open>missingProperties\<close>, empty when there is no entry.\<close>

definition entryOf :: "(string \<times> string list) list \<Rightarrow> string \<Rightarrow> string list" where
  "entryOf mp psetName = (case map_of mp psetName of None \<Rightarrow> [] | Some l \<Rightarrow> l)"

text \<open>
  The body of the loop over \<^verbatim>\<open>reqProps\<close> when the found set has a \<^verbatim>\<open>HasProperties\<close>
  array. When the property is not there, \<^verbatim>\<open>missingProperties[psetName].includes\<close> is
  called: on an inherited member that call throws a \<^verbatim>\<open>TypeError\<close>.
\<close>

definition checkPropName ::
  "ifc_property list \<Rightarrow> string \<Rightarrow> string \<Rightarrow> (string \<times> string list) list \<times> bool
     \<Rightarrow> js_error + (string \<times> string list) list \<times> bool" where
  "checkPropName props psetName propName acc =
     (case acc of (mp, hasError) \<Rightarrow>
        if list_ex (\<lambda>p. prop_Name p = Some propName) props then Inr (mp, hasError)
        else
          (let mp1 = ensureEntry psetName mp in
           case getMember mp1 psetName of
             Own l \<Rightarrow> Inr (if propName \<in> set l then mp1 else AList.update psetName (l @ [propName]) mp1, True)
           | Inherited \<Rightarrow> Inl TypeError
           | Undefined \<Rightarrow> Inl TypeError))"

definition checkPropNames ::
  "ifc_property list \<Rightarrow> string \<Rightarrow> string list \<Rightarrow> (string \<times> string list) list \<times> bool
     \<Rightarrow> js_error + (string \<times> string list) list \<times> bool" where
  "checkPropNames props psetName reqProps acc = forOf (checkPropName props psetName) reqProps acc"

text \<open>
  The body of the loop over \<^verbatim>\<open>Object.entries(rule.requiredProperties)\<close>. A set that is
  not found is skipped. A found set without a \<^verbatim>\<open>HasProperties\<close> array gets all the
  required names pushed, unchecked, and raises the error flag.
\<close>

definition checkProperty ::
  "ifc_item list option \<Rightarrow> string \<times> string list \<Rightarrow> (string \<times> string list) list \<times> bool
     \<Rightarrow> js_error + (string \<times> string list) list \<times> bool" where
  "checkProperty propertySets entry acc =
     (case entry of (psetName, reqProps) \<Rightarrow>
      case acc of (mp, hasError) \<Rightarrow>
        (case findPset propertySets psetName of
           Inl e \<Rightarrow> Inl e
         | Inr None \<Rightarrow> Inr (mp, hasError)
         | Inr (Some foundPset) \<Rightarrow>
             (case HasProperties foundPset of
                Some props \<Rightarrow> checkPropNames props psetName reqProps (mp, hasError)
              | None \<Rightarrow>
                  (let mp1 = ensureEntry psetName mp in
                   case getMember mp1 psetName of
                     Own l \<Rightarrow> Inr (AList.update psetName (l @ reqProps) mp1, True)
                   | Inherited \<Rightarrow> Inl TypeError
                   | Undefined \<Rightarrow> Inl TypeError))))"

definition checkProperties ::
  "ifc_item list option \<Rightarrow> (string \<times> string list) list \<Rightarrow> (string \<times> string list) list \<times> bool
     \<Rightarrow> js_error + (string \<times> string list) list \<times> bool" where
  "checkProperties propertySets entries acc = forOf (checkProperty propertySets) entries acc"

text \<open>The body of the loop over the applicable rules, on \<open>(missingPsets, missingProperties, hasError)\<close>.\<close>

definition checkRule ::
  "ifc_item list option \<Rightarrow> ValidationRule \<Rightarrow> string list \<times> (string \<times> string list) list \<times> bool
     \<Rightarrow> js_error + string list \<times> (string \<times> string list) list \<times> bool" where
  "checkRule propertySets rule acc =
     (case acc of (missing, mp, hasError) \<Rightarrow>
        (case checkPsets propertySets (requiredPsets rule) (missing, hasError) of
           Inl e \<Rightarrow> Inl e
         | Inr (missing', hasError') \<Rightarrow>
             (case checkProperties propertySets (requiredProperties rule) (mp, hasError') of
                Inl e \<Rightarrow> Inl e
              | Inr (mp', hasError'') \<Rightarrow> Inr (missing', mp', hasError''))))"

definition checkRules ::
  "ifc_item list option \<Rightarrow> ValidationRule list \<Rightarrow> string list \<times> (string \<times> string list) list \<times> bool
     \<Rightarrow> js_error + string list \<times> (string \<times> string list) list \<times> bool" where
  "checkRules propertySets rules acc = forOf (checkRule propertySets) rules acc"

text \<open>
  \<^verbatim>\<open>props.type || (props.constructor ? props.constructor.name : "")\<close>, then
  \<^verbatim>\<open>.toUpperCase()\<close>, which exists only on a string.
\<close>

definition normalizedType :: "JSRuntime \<Rightarrow> ifc_item \<Rightarrow> js_error + string" where
  "normalizedType J props =
     (case (if truthy (itype props) then itype props
            else (case constructor_name props of Some n \<Rightarrow> JStr n | None \<Rightarrow> JStr [])) of
        JStr ifcType \<Rightarrow> Inr (toUpperCase J ifcType)
      | JNum n \<Rightarrow> Inl TypeError
      | JUndefined \<Rightarrow> Inl TypeError)"

text \<open>\<^verbatim>\<open>rules.filter(r => normalizedType.includes(r.ifcClass.toUpperCase()))\<close>\<close>

definition applicableRules :: "JSRuntime \<Rightarrow> string \<Rightarrow> ValidationRule list \<Rightarrow> ValidationRule list" where
  "applicableRules J normalized rules =
     filter (\<lambda>r. str_includes normalized (toUpperCase J (ifcClass r))) rules"

text \<open>The body of the \<^verbatim>\<open>try\<close> block of \<^verbatim>\<open>validateElement\<close>; \<open>Inl\<close> is a thrown error.\<close>

definition validateElementBody ::
  "JSRuntime \<Rightarrow> IFCLoader \<Rightarrow> mesh \<Rightarrow> ValidationRule list \<Rightarrow> js_error + ValidationResult option" where
  "validateElementBody J L m rules =
     (let expressID = mesh_expressID m;
          mID = or_zero (mesh_modelID m) in
      case getItemProperties L mID expressID of
        Inl e \<Rightarrow> Inl e
      | Inr props \<Rightarrow>
          (case normalizedType J props of
             Inl e \<Rightarrow> Inl e
           | Inr normalized \<Rightarrow>
               (let applicable = applicableRules J normalized rules in
                if applicable = [] then Inr None
                else
                  (case getPropertySets L mID expressID of
                     Inl e \<Rightarrow> Inl e
                   | Inr propertySets \<Rightarrow>
                       (case checkRules propertySets applicable ([], [], False) of
                          Inl e \<Rightarrow> Inl e
                        | Inr (missing, mp, hasError) \<Rightarrow>
                            (if \<not> hasError
                             then Inr (Some \<lparr>elementID = expressID, modelID = mID,
                                             result_ifcClass = normalized, missingPsets = [],
                                             missingProperties = [], passed = True\<rparr>)
                             else Inr (Some \<lparr>elementID = expressID, modelID = mID,
                                             result_ifcClass = normalized, missingPsets = missing,
                                             missingProperties = mp, passed = False\<rparr>)))))))"

text \<open>\<^verbatim>\<open>validateElement\<close>: the \<^verbatim>\<open>catch\<close> turns every thrown error into \<^verbatim>\<open>null\<close>.\<close>

definition validateElement ::
  "JSRuntime \<Rightarrow> IFCLoader \<Rightarrow> mesh \<Rightarrow> ValidationRule list \<Rightarrow> ValidationResult option" where
  "validateElement J L m rules =
     (case validateElementBody J L m rules of Inl e \<Rightarrow> None | Inr r \<Rightarrow> r)"

text \<open>
  \<^verbatim>\<open>Math.round((processed / total) * 100)\<close>, as the runtime computes it: the quotient is
  rounded to a double, the product by 100 is rounded to a double, and \<^verbatim>\<open>Math.round\<close>
  takes the nearest integer. The loop calls it only with \<open>0 < processed \<le> total\<close>.
\<close>

definition roundPercent :: "nat \<Rightarrow> nat \<Rightarrow> nat" where
  "roundPercent processed totalCount =
     nat (Math_round (toDouble (toDouble (of_nat processed / of_nat totalCount) * 100)))"

text \<open>
  The \<^verbatim>\<open>for\<close> loop of \<^verbatim>\<open>validateModel\<close> on \<open>(processed, results, reported)\<close>; \<open>reported\<close>
  lists the arguments of the \<^verbatim>\<open>onProgress\<close> calls made so far, and \<open>hasCallback\<close> tells
  whether the optional callback was given.
\<close>

fun validateLoop ::
  "JSRuntime \<Rightarrow> IFCLoader \<Rightarrow> ValidationRule list \<Rightarrow> bool \<Rightarrow> nat \<Rightarrow> mesh list
     \<Rightarrow> nat \<times> ValidationResult list \<times> nat list \<Rightarrow> nat \<times> ValidationResult list \<times> nat list" where
  "validateLoop J L rules hasCallback totalCount [] acc = acc"
| "validateLoop J L rules hasCallback totalCount (m # rest) (processed, results, reported) =
     (let results' = (case validateElement J L m rules of
                        None \<Rightarrow> results
                      | Some r \<Rightarrow> if \<not> passed r then results @ [r] else results);
          processed' = processed + 1;
          reported' = (if hasCallback \<and> processed' mod 10 = 0
                       then reported @ [roundPercent processed' totalCount] else reported)
      in validateLoop J L rules hasCallback totalCount rest (processed', results', reported'))"

text \<open>The meshes \<^verbatim>\<open>validateModel\<close> collects: those carrying an \<^verbatim>\<open>expressID\<close>.\<close>

definition indexedMeshes :: "model \<Rightarrow> mesh list" where
  "indexedMeshes m = filter (\<lambda>child. mesh_expressID child \<noteq> JUndefined) (meshes m)"

text \<open>
  \<^verbatim>\<open>validateModel\<close> returns the settled promise (\<open>Inr\<close> a resolved result list, \<open>Inl\<close> a
  rejection), the values reported to \<^verbatim>\<open>onProgress\<close>, and the warnings printed. The
  callback only records its argument.
\<close>

definition validateModel ::
  "JSRuntime \<Rightarrow> IFCLoader \<Rightarrow> IFCManager \<Rightarrow> ValidationRule list \<Rightarrow> bool
     \<Rightarrow> (js_error + ValidationResult list) \<times> nat list \<times> string list" where
  "validateModel J L s rules hasCallback =
     (case getCurrentModel s of
        None \<Rightarrow> (Inr [], [], [''No model loaded to validate.''])
      | Some m \<Rightarrow>
          (let ms = indexedMeshes m;
               totalCount = length ms
           in case validateLoop J L rules hasCallback totalCount ms (0, [], []) of
                (processed, results, reported) \<Rightarrow>
                  (Inr results, (if hasCallback then reported @ [100] else reported), [])))"

section \<open>Example inputs\<close>

text \<open>
  Concrete meshes, parser answers and rules on which the results below are evaluated. The
  wall is the one of the default rule set: class \<^verbatim>\<open>IFCWALLSTANDARDCASE\<close>, and
  \<open>barePset\<close> is a property set \<^verbatim>\<open>Pset_WallCommon\<close> without a \<^verbatim>\<open>HasProperties\<close> array.
  All their strings are ASCII.
\<close>

definition plainMesh :: "int \<Rightarrow> mesh" where
  "plainMesh i = \<lparr>mesh_expressID = JNum i, mesh_modelID = JUndefined, mesh_geometry = None,
                  matrixWorld = (\<lambda>v. v)\<rparr>"

definition idle :: "model option \<Rightarrow> IFCManager" where
  "idle m = \<lparr>currentModel = m, currentSubset = None, scene = [], subset_calls = [], console = []\<rparr>"

definition wallItem :: ifc_item where
  "wallItem = \<lparr>itype = JStr ''IFCWALLSTANDARDCASE'', constructor_name = Some ''Object'',
               Name = Some ''Wall-001'', item_expressID = JNum 7, HasAssociations = None,
               HasProperties = None\<rparr>"

definition barePset :: ifc_item where
  "barePset = \<lparr>itype = JStr ''IFCPROPERTYSET'', constructor_name = Some ''Object'',
               Name = Some ''Pset_WallCommon'', item_expressID = JNum 40, HasAssociations = None,
               HasProperties = None\<rparr>"

definition namedPset :: "string \<Rightarrow> ifc_item" where
  "namedPset n = \<lparr>itype = JStr ''IFCPROPERTYSET'', constructor_name = Some ''Object'',
               Name = Some n, item_expressID = JNum 41, HasAssociations = None,
               HasProperties = None\<rparr>"

definition wallLoader :: "(js_error + ifc_item list option) \<Rightarrow> IFCLoader" where
  "wallLoader answer =
     \<lparr>getItemProperties = (\<lambda>mID eID. Inr wallItem),
      getPropertySets = (\<lambda>mID eID. answer),
      createSubset = (\<lambda>mID eID. Inl Rejected),
      removeSubset_throws = (\<lambda>mID. False),
      load = (\<lambda>url. Inl Rejected)\<rparr>"

definition wallRule :: ValidationRule where
  "wallRule = \<lparr>ifcClass = ''IFCWALL'', requiredPsets = [''Pset_WallCommon''],
               requiredProperties = [(''Pset_WallCommon'', [''LoadBearing'', ''IsExternal''])]\<rparr>"

definition loadBearingRule :: "string \<Rightarrow> ValidationRule" where
  "loadBearingRule cls = \<lparr>ifcClass = cls, requiredPsets = [],
               requiredProperties = [(''Pset_WallCommon'', [''LoadBearing''])]\<rparr>"

definition nothingRule :: ValidationRule where
  "nothingRule = \<lparr>ifcClass = ''IFCWALL'', requiredPsets = [],
               requiredProperties = [(''Pset_WallCommon'', [])]\<rparr>"


definition deadLoader :: IFCLoader where
  "deadLoader =
     \<lparr>getItemProperties = (\<lambda>mID eID. Inl Rejected),
      getPropertySets = (\<lambda>mID eID. Inl Rejected),
      createSubset = (\<lambda>mID eID. Inl Rejected),
      removeSubset_throws = (\<lambda>mID. False),
      load = (\<lambda>url. Inl Rejected)\<rparr>"

definition plainMeshes :: "nat \<Rightarrow> model" where
  "plainMeshes n = \<lparr>meshes = map (\<lambda>i. plainMesh (int i)) [1 ..< n + 1], position = (0, 0, 0), offset = None\<rparr>"

definition oneWall :: model where
  "oneWall = \<lparr>meshes = [plainMesh 7], position = (0, 0, 0), offset = None\<rparr>"

definition shiftedModel :: model where
  "shiftedModel = \<lparr>meshes = [plainMesh 7], position = (0, 0, 0), offset = Some (10, 20, 30)\<rparr>"

definition emptyModel :: model where
  "emptyModel = \<lparr>meshes = [], position = (0, 0, 0), offset = None\<rparr>"

definition rawSubset :: subset where
  "rawSubset = \<lparr>subset_modelID = JNum 0,
                subset_geometry = Some \<lparr>positions = [(11, 22, 33), (10, 20, 30)], boundingBox = None\<rparr>\<rparr>"

definition subsetLoader :: "bool \<Rightarrow> (js_error + model) \<Rightarrow> IFCLoader" where
  "subsetLoader removalThrows loaded =
     \<lparr>getItemProperties = (\<lambda>mID eID. Inr wallItem),
      getPropertySets = (\<lambda>mID eID. Inr (Some [])),
      createSubset = (\<lambda>mID eID. Inr rawSubset),
      removeSubset_throws = (\<lambda>mID. removalThrows),
      load = (\<lambda>url. loaded)\<rparr>"

text \<open>A parser whose \<^verbatim>\<open>removeSubset\<close> and \<^verbatim>\<open>createSubset\<close> both throw.\<close>

definition stuckLoader :: IFCLoader where
  "stuckLoader =
     \<lparr>getItemProperties = (\<lambda>mID eID. Inl Rejected),
      getPropertySets = (\<lambda>mID eID. Inl Rejected),
      createSubset = (\<lambda>mID eID. Inl Rejected),
      removeSubset_throws = (\<lambda>mID. True),
      load = (\<lambda>url. Inl Rejected)\<rparr>"

definition highlighted :: "model option \<Rightarrow> IFCManager" where
  "highlighted m = \<lparr>currentModel = m, currentSubset = Some rawSubset, scene = [],
                    subset_calls = [CreateSubset (JNum 0) (JNum 7)], console = []\<rparr>"

text \<open>
  A wall with a type and three associations: a material, a handle the parser cannot
  resolve, and a quantity set. The parser has no property sets for the wall itself and
  rejects the request for the property sets of the wall's type.
\<close>

definition typedWall :: ifc_item where
  "typedWall = \<lparr>itype = JNum 900, constructor_name = Some ''IfcWall'',
                Name = Some ''Wall-002'', item_expressID = JNum 7,
                HasAssociations = Some [JNum 50, JNum 51, JNum 52], HasProperties = None\<rparr>"

definition materialItem :: ifc_item where
  "materialItem = \<lparr>itype = JStr ''IFCMATERIAL'', constructor_name = Some ''IfcMaterial'',
                   Name = Some ''Concrete'', item_expressID = JNum 50,
                   HasAssociations = None, HasProperties = None\<rparr>"

definition wallTypeItem :: ifc_item where
  "wallTypeItem = \<lparr>itype = JUndefined, constructor_name = Some ''IfcWallType'',
                   Name = Some ''Basic Wall'', item_expressID = JNum 900,
                   HasAssociations = None, HasProperties = None\<rparr>"

definition quantityItem :: ifc_item where
  "quantityItem = \<lparr>itype = JStr ''IFCELEMENTQUANTITY'', constructor_name = Some ''IfcElementQuantity'',
                   Name = Some ''BaseQuantities'', item_expressID = JNum 52,
                   HasAssociations = None, HasProperties = None\<rparr>"

definition assocLoader :: IFCLoader where
  "assocLoader =
     \<lparr>getItemProperties =
        (\<lambda>mID eID. if eID = JNum 7 then Inr typedWall
                    else if eID = JNum 50 then Inr materialItem
                    else if eID = JNum 52 then Inr quantityItem
                    else if eID = JNum 900 then Inr wallTypeItem
                    else Inl Rejected),
      getPropertySets = (\<lambda>mID eID. if eID = JNum 7 then Inr (Some []) else Inl Rejected),
      createSubset = (\<lambda>mID eID. Inl Rejected),
      removeSubset_throws = (\<lambda>mID. False),
      load = (\<lambda>url. Inl Rejected)\<rparr>"

section \<open>Rounding to a double is monotone\<close>

text \<open>
  Rounding to the nearest double keeps the order of its arguments and fixes every double,
  so a quotient that does not exceed 1 is rounded to at most 1 and its product by 100 to
  at most 100.
\<close>

lemma roundHalfEven_bounds: "\<lfloor>m\<rfloor> \<le> roundHalfEven m \<and> roundHalfEven m \<le> \<lfloor>m\<rfloor> + 1"
  by (simp add: roundHalfEven_def Let_def)

lemma roundHalfEven_int: "roundHalfEven (of_int k) = k"
  by (simp add: roundHalfEven_def Let_def)

lemma roundHalfEven_mono: "a \<le> b \<Longrightarrow> roundHalfEven a \<le> roundHalfEven b"
proof -
  assume ab: "a \<le> b"
  then have fl: "\<lfloor>a\<rfloor> \<le> \<lfloor>b\<rfloor>" by (rule floor_mono)
  show ?thesis
  proof (cases "\<lfloor>a\<rfloor> = \<lfloor>b\<rfloor>")
    case True
    then have "a - of_int \<lfloor>a\<rfloor> \<le> b - of_int \<lfloor>b\<rfloor>" using ab by simp
    then show ?thesis using True by (auto simp: roundHalfEven_def Let_def)
  next
    case False
    then have "\<lfloor>a\<rfloor> + 1 \<le> \<lfloor>b\<rfloor>" using fl by simp
    then show ?thesis
      using roundHalfEven_bounds[of a] roundHalfEven_bounds[of b] by linarith
  qed
qed

lemma roundHalfEven_le: "m \<le> of_int k \<Longrightarrow> roundHalfEven m \<le> k"
  using roundHalfEven_mono[of m "of_int k"] by (simp add: roundHalfEven_int)

lemma roundHalfEven_ge: "of_int k \<le> m \<Longrightarrow> k \<le> roundHalfEven m"
  using roundHalfEven_mono[of "of_int k" m] by (simp add: roundHalfEven_int)

lemma binade_bounds:
  assumes "0 < x"
  shows "2 powi (binade x) \<le> x \<and> x < 2 powi (binade x + 1)"
proof -
  obtain a b where q: "quotient_of x = (a, b)" by (cases "quotient_of x")
  have b: "0 < b" using quotient_of_denom_pos[OF q] .
  have x: "x = of_int a / of_int b" using quotient_of_div[OF q] .
  have a: "0 < a" using assms b x by (simp add: zero_less_divide_iff)
  let ?la = "bitlen a" and ?lb = "bitlen b"
  have la: "1 \<le> ?la" using a by (simp add: bitlen_alt_def)
  have lb: "1 \<le> ?lb" using b by (simp add: bitlen_alt_def)
  have ba: "(2::rat) powi (?la - 1) \<le> of_int a \<and> of_int a < (2::rat) powi ?la"
  proof -
    have "2 ^ nat (?la - 1) \<le> a \<and> a < 2 ^ nat ?la" using bitlen_bounds[OF a] .
    then have "(of_int (2 ^ nat (?la - 1)) :: rat) \<le> of_int a \<and> (of_int a :: rat) < of_int (2 ^ nat ?la)"
      by (simp only: of_int_le_iff of_int_less_iff)
    then show ?thesis using la by (simp add: power_int_def)
  qed
  have bb: "(2::rat) powi (?lb - 1) \<le> of_int b \<and> of_int b < (2::rat) powi ?lb"
  proof -
    have "2 ^ nat (?lb - 1) \<le> b \<and> b < 2 ^ nat ?lb" using bitlen_bounds[OF b] .
    then have "(of_int (2 ^ nat (?lb - 1)) :: rat) \<le> of_int b \<and> (of_int b :: rat) < of_int (2 ^ nat ?lb)"
      by (simp only: of_int_le_iff of_int_less_iff)
    then show ?thesis using lb by (simp add: power_int_def)
  qed
  let ?l = "?la - ?lb"
  have bpos: "(0::rat) < of_int b" using b by simp
  have up: "x < 2 powi (?l + 1)"
  proof -
    have "of_int a < (2::rat) powi ?la" using ba by simp
    also have "\<dots> = 2 powi (?l + 1) * 2 powi (?lb - 1)"
      by (simp add: power_int_add[symmetric])
    also have "\<dots> \<le> 2 powi (?l + 1) * of_int b"
      using bb by (intro mult_left_mono) simp_all
    finally show ?thesis using bpos x by (simp add: pos_divide_less_eq)
  qed
  have lo: "2 powi (?l - 1) < x"
  proof -
    have "2 powi (?l - 1) * of_int b < 2 powi (?l - 1) * (2::rat) powi ?lb"
      using bb by (intro mult_strict_left_mono) simp_all
    also have "\<dots> = 2 powi (?la - 1)"
      by (simp add: power_int_add[symmetric])
    also have "\<dots> \<le> of_int a" using ba by simp
    finally show ?thesis using bpos x by (simp add: pos_less_divide_eq)
  qed
  show ?thesis
  proof (cases "2 powi ?l \<le> x")
    case True
    then show ?thesis using up q by (simp add: binade_def Let_def)
  next
    case False
    then have "binade x = ?l - 1" using q by (simp add: binade_def Let_def)
    then show ?thesis using lo False by simp
  qed
qed

lemma binade_mono:
  assumes "0 < x" "x \<le> y"
  shows "binade x \<le> binade y"
proof -
  have "2 powi (binade x) \<le> x" using binade_bounds[OF assms(1)] by simp
  also have "x \<le> y" by fact
  also have "y < 2 powi (binade y + 1)" using binade_bounds[of y] assms by simp
  finally have lt: "(2::rat) powi (binade x) < 2 powi (binade y + 1)" .
  have "\<not> binade y + 1 \<le> binade x"
  proof
    assume "binade y + 1 \<le> binade x"
    then have "(2::rat) powi (binade y + 1) \<le> 2 powi (binade x)"
      by (intro power_int_increasing) simp_all
    then show False using lt by simp
  qed
  then show ?thesis by simp
qed

lemma pow2_split: "(2::rat) powi e = of_int (2 ^ k) * 2 powi (e - int k)"
proof -
  have "(2::rat) powi e = 2 powi (int k) * 2 powi (e - int k)"
    by (subst power_int_add[symmetric]) simp_all
  moreover have "(2::rat) powi (int k) = of_int (2 ^ k)" by (simp add: power_int_def)
  ultimately show ?thesis by simp
qed

lemma toDouble_in_binade:
  assumes "0 < x"
  shows "2 powi (binade x) \<le> toDouble x \<and> toDouble x \<le> 2 powi (binade x + 1)"
proof -
  let ?ulp = "(2::rat) powi (binade x - 52)"
  have ulp: "0 < ?ulp" by simp
  have a: "(2::rat) powi (binade x) = of_int (2 ^ 52) * ?ulp"
    using pow2_split[of "binade x" 52] by simp
  have b: "(2::rat) powi (binade x + 1) = of_int (2 ^ 53) * ?ulp"
    using pow2_split[of "binade x + 1" 53] by simp
  have lo: "of_int (2 ^ 52) \<le> x / ?ulp"
    using binade_bounds[OF assms] ulp unfolding a by (simp add: pos_le_divide_eq)
  have hi: "x / ?ulp \<le> of_int (2 ^ 53)"
    using binade_bounds[OF assms] ulp unfolding b by (simp add: pos_divide_le_eq)
  have n1: "2 ^ 52 \<le> roundHalfEven (x / ?ulp)" using roundHalfEven_ge[OF lo] .
  have n2: "roundHalfEven (x / ?ulp) \<le> 2 ^ 53" using roundHalfEven_le[OF hi] .
  have t: "toDouble x = of_int (roundHalfEven (x / ?ulp)) * ?ulp"
    using assms by (simp add: toDouble_def Let_def)
  have r1: "(of_int (2 ^ 52) :: rat) \<le> of_int (roundHalfEven (x / ?ulp))"
    using n1 by (simp only: of_int_le_iff)
  have r2: "(of_int (roundHalfEven (x / ?ulp)) :: rat) \<le> of_int (2 ^ 53)"
    using n2 by (simp only: of_int_le_iff)
  have u0: "0 \<le> ?ulp" by simp
  have "of_int (2 ^ 52) * ?ulp \<le> of_int (roundHalfEven (x / ?ulp)) * ?ulp"
    using r1 u0 by (rule mult_right_mono)
  moreover have "of_int (roundHalfEven (x / ?ulp)) * ?ulp \<le> of_int (2 ^ 53) * ?ulp"
    using r2 u0 by (rule mult_right_mono)
  ultimately show ?thesis unfolding t a b by simp
qed

lemma toDouble_pos: "0 < x \<Longrightarrow> 0 < toDouble x"
proof -
  assume x: "0 < x"
  have "(0::rat) < 2 powi (binade x)" by simp
  then show ?thesis using toDouble_in_binade[OF x] by linarith
qed

lemma toDouble_mono:
  assumes "0 < x" "x \<le> y"
  shows "toDouble x \<le> toDouble y"
proof -
  have y: "0 < y" using assms by simp
  have e: "binade x \<le> binade y" using binade_mono[OF assms] .
  show ?thesis
  proof (cases "binade x = binade y")
    case True
    let ?ulp = "(2::rat) powi (binade y - 52)"
    have ulp: "0 < ?ulp" by simp
    have "x / ?ulp \<le> y / ?ulp" using assms(2) ulp by (simp add: divide_right_mono)
    then have "roundHalfEven (x / ?ulp) \<le> roundHalfEven (y / ?ulp)" by (rule roundHalfEven_mono)
    then have "(of_int (roundHalfEven (x / ?ulp)) :: rat) \<le> of_int (roundHalfEven (y / ?ulp))" by simp
    then have "of_int (roundHalfEven (x / ?ulp)) * ?ulp \<le> of_int (roundHalfEven (y / ?ulp)) * ?ulp"
      using ulp by (intro mult_right_mono) simp_all
    then show ?thesis using assms(1) y True by (simp add: toDouble_def Let_def)
  next
    case False
    then have "binade x + 1 \<le> binade y" using e by simp
    then have "(2::rat) powi (binade x + 1) \<le> 2 powi (binade y)"
      by (simp add: power_int_increasing)
    then show ?thesis using toDouble_in_binade[OF assms(1)] toDouble_in_binade[OF y] by linarith
  qed
qed

lemma toDouble_1: "toDouble 1 = 1" by code_simp

lemma toDouble_100: "toDouble 100 = 100" by code_simp

lemma Math_round_mono: "a \<le> b \<Longrightarrow> Math_round a \<le> Math_round b"
  by (simp add: Math_round_def floor_mono)

lemma roundPercent_mono:
  assumes "0 < a" "a \<le> b" "0 < t"
  shows "roundPercent a t \<le> roundPercent b t"
proof -
  have 1: "(0::rat) < of_nat a / of_nat t" using assms by simp
  have 2: "(of_nat a :: rat) / of_nat t \<le> of_nat b / of_nat t"
    using assms by (simp add: divide_right_mono)
  have 3: "toDouble (of_nat a / of_nat t) \<le> toDouble (of_nat b / of_nat t)"
    using toDouble_mono[OF 1 2] .
  have 4: "0 < toDouble (of_nat a / of_nat t) * 100" using toDouble_pos[OF 1] by simp
  have 5: "toDouble (toDouble (of_nat a / of_nat t) * 100) \<le> toDouble (toDouble (of_nat b / of_nat t) * 100)"
    using toDouble_mono[OF 4] 3 by simp
  show ?thesis unfolding roundPercent_def
    using Math_round_mono[OF 5] by simp
qed

lemma roundPercent_le:
  assumes "0 < q" "q \<le> t"
  shows "roundPercent q t \<le> 100"
proof -
  have t: "0 < t" using assms by simp
  have 1: "(0::rat) < of_nat q / of_nat t" using assms by simp
  have 2: "(of_nat q :: rat) / of_nat t \<le> 1" using assms by simp
  have 3: "toDouble (of_nat q / of_nat t) \<le> 1" using toDouble_mono[OF 1 2] by (simp add: toDouble_1)
  have 4: "0 < toDouble (of_nat q / of_nat t) * 100" using toDouble_pos[OF 1] by simp
  have 5: "toDouble (of_nat q / of_nat t) * 100 \<le> 100" using 3 by simp
  have 6: "toDouble (toDouble (of_nat q / of_nat t) * 100) \<le> 100"
    using toDouble_mono[OF 4 5] by (simp add: toDouble_100)
  have "Math_round (toDouble (toDouble (of_nat q / of_nat t) * 100)) \<le> Math_round 100"
    using Math_round_mono[OF 6] .
  moreover have "Math_round 100 = 100" by code_simp
  ultimately show ?thesis unfolding roundPercent_def by simp
qed

text \<open>
  Rounding to a double moves a positive number by at most the fraction \<open>2 ^ - 53\<close> of
  itself. So the double that \<^verbatim>\<open>Math.round\<close> receives is less than a half away from
  the exact percentage, and the integer reported is the exact percentage rounded down or
  rounded up.
\<close>

lemma roundHalfEven_near: "\<bar>of_int (roundHalfEven m) - m\<bar> \<le> 1 / 2"
proof -
  define f where "f = \<lfloor>m\<rfloor>"
  define r where "r = m - of_int f"
  have m: "m = of_int f + r" by (simp add: r_def)
  have r0: "0 \<le> r" unfolding r_def f_def by linarith
  have r1: "r < 1" unfolding r_def f_def by linarith
  have "roundHalfEven m = f \<and> r \<le> 1 / 2 \<or> roundHalfEven m = f + 1 \<and> 1 / 2 \<le> r"
    unfolding roundHalfEven_def Let_def f_def[symmetric] r_def[symmetric] by auto
  then show ?thesis
  proof
    assume "roundHalfEven m = f \<and> r \<le> 1 / 2"
    then show ?thesis using m r0 by simp
  next
    assume "roundHalfEven m = f + 1 \<and> 1 / 2 \<le> r"
    then show ?thesis using m r1 by simp
  qed
qed

lemma toDouble_near:
  assumes "0 < x"
  shows "\<bar>toDouble x - x\<bar> \<le> x / 2 ^ 53"
proof -
  let ?ulp = "(2::rat) powi (binade x - 52)"
  have ulp: "0 < ?ulp" by simp
  have a: "(2::rat) powi (binade x) = of_int (2 ^ 52) * ?ulp"
    using pow2_split[of "binade x" 52] by simp
  have lo: "of_int (2 ^ 52) * ?ulp \<le> x" using binade_bounds[OF assms] unfolding a by simp
  have td: "toDouble x = of_int (roundHalfEven (x / ?ulp)) * ?ulp"
    using assms by (simp add: toDouble_def Let_def)
  have "toDouble x - x = (of_int (roundHalfEven (x / ?ulp)) - x / ?ulp) * ?ulp"
    using ulp by (simp add: td field_simps)
  then have "\<bar>toDouble x - x\<bar> = \<bar>of_int (roundHalfEven (x / ?ulp)) - x / ?ulp\<bar> * ?ulp"
    using ulp by (simp add: abs_mult)
  also have "\<dots> \<le> (1 / 2) * ?ulp"
    using roundHalfEven_near[of "x / ?ulp"] ulp by (rule mult_right_mono[OF _ less_imp_le])
  finally have 1: "\<bar>toDouble x - x\<bar> \<le> ?ulp / 2" by simp
  have "?ulp \<le> x / of_int (2 ^ 52)" using lo by (simp add: field_simps)
  then have "?ulp / 2 \<le> x / of_int (2 ^ 52) / 2" by simp
  also have "\<dots> = x / 2 ^ 53" by simp
  finally show ?thesis using 1 by linarith
qed

lemma roundPercent_near:
  assumes "0 < q" "q \<le> t"
  shows "\<bar>toDouble (toDouble (of_nat q / of_nat t) * 100) - 100 * of_nat q / of_nat t\<bar> < 1 / 2"
proof -
  define x :: rat where "x = of_nat q / of_nat t"
  define d1 where "d1 = toDouble x"
  define y where "y = d1 * 100"
  define d2 where "d2 = toDouble y"
  have x0: "0 < x" using assms by (simp add: x_def)
  have x1: "x \<le> 1" using assms by (simp add: x_def)
  have e1: "\<bar>d1 - x\<bar> \<le> x / 2 ^ 53" unfolding d1_def by (rule toDouble_near[OF x0])
  have d1p: "0 < d1" unfolding d1_def by (rule toDouble_pos[OF x0])
  have y0: "0 < y" using d1p by (simp add: y_def)
  have e2: "\<bar>d2 - y\<bar> \<le> y / 2 ^ 53" unfolding d2_def by (rule toDouble_near[OF y0])
  have "x / 2 ^ 53 \<le> 1" using x1 x0 by simp
  then have d1le: "d1 \<le> 2" using e1 x1 by linarith
  have yle: "y \<le> 200" using d1le by (simp add: y_def)
  have a: "\<bar>y - 100 * x\<bar> \<le> 100 / 2 ^ 53"
  proof -
    have "\<bar>y - 100 * x\<bar> = 100 * \<bar>d1 - x\<bar>" by (simp add: y_def abs_if)
    also have "\<dots> \<le> 100 * (x / 2 ^ 53)" using e1 by simp
    also have "\<dots> \<le> 100 * (1 / 2 ^ 53)" using x1 by (simp add: divide_right_mono)
    finally show ?thesis by simp
  qed
  have b: "\<bar>d2 - y\<bar> \<le> 200 / 2 ^ 53"
  proof -
    have "y / 2 ^ 53 \<le> 200 / 2 ^ 53" using yle by (simp add: divide_right_mono)
    then show ?thesis using e2 by linarith
  qed
  have "\<bar>d2 - 100 * x\<bar> \<le> \<bar>d2 - y\<bar> + \<bar>y - 100 * x\<bar>" by linarith
  then have "\<bar>d2 - 100 * x\<bar> \<le> 300 / 2 ^ 53" using a b by linarith
  moreover have "(300::rat) / 2 ^ 53 < 1 / 2" by simp
  ultimately have "\<bar>d2 - 100 * x\<bar> < 1 / 2" by linarith
  then show ?thesis by (simp add: d2_def y_def d1_def x_def)
qed

lemma roundPercent_between:
  assumes "0 < q" "q \<le> t"
  shows "int (roundPercent q t) \<in> {\<lfloor>100 * of_nat q / (of_nat t :: rat)\<rfloor>, \<lceil>100 * of_nat q / (of_nat t :: rat)\<rceil>}"
proof -
  define p :: rat where "p = 100 * of_nat q / of_nat t"
  define d where "d = toDouble (toDouble (of_nat q / of_nat t) * 100)"
  have near: "\<bar>d - p\<bar> < 1 / 2" unfolding d_def p_def by (rule roundPercent_near[OF assms])
  have p0: "0 \<le> p" by (simp add: p_def)
  have lo: "\<lfloor>p\<rfloor> \<le> Math_round d"
  proof -
    have "of_int \<lfloor>p\<rfloor> \<le> p" by simp
    then have "of_int \<lfloor>p\<rfloor> \<le> d + 1 / 2" using near by linarith
    then show ?thesis unfolding Math_round_def by (simp add: le_floor_iff)
  qed
  have hi: "Math_round d \<le> \<lceil>p\<rceil>"
  proof -
    have "p \<le> of_int \<lceil>p\<rceil>" by simp
    then have "d + 1 / 2 < of_int \<lceil>p\<rceil> + 1" using near by linarith
    then have "d + 1 / 2 < of_int (\<lceil>p\<rceil> + 1)" by simp
    then have "\<lfloor>d + 1 / 2\<rfloor> < \<lceil>p\<rceil> + 1" by (simp only: floor_less_iff)
    then show ?thesis unfolding Math_round_def by simp
  qed
  have c: "\<lceil>p\<rceil> \<le> \<lfloor>p\<rfloor> + 1" by (simp add: ceiling_le_iff) linarith
  have nn: "0 \<le> Math_round d" using lo p0 by (smt (verit) zero_le_floor)
  have "int (roundPercent q t) = Math_round d"
    unfolding roundPercent_def d_def[symmetric] using nn by simp
  then show ?thesis unfolding p_def[symmetric] using lo hi c by auto
qed

section \<open>A loop that may throw\<close>

text \<open>
  Three ways to reason about a \<^verbatim>\<open>for ... of\<close> loop that returned: an invariant of the
  body holds at the end; a loop whose body never throws returns; what the body
  establishes for one element and never undoes holds at the end.
\<close>

lemma forOf_invariant:
  assumes "forOf body xs s = Inr s'" and "I s"
      and "\<And>x t t'. x \<in> set xs \<Longrightarrow> I t \<Longrightarrow> body x t = Inr t' \<Longrightarrow> I t'"
  shows "I s'"
  using assms
proof (induction xs arbitrary: s)
  case Nil
  then show ?case by simp
next
  case (Cons x xs)
  from Cons.prems(1) obtain t where t: "body x s = Inr t" "forOf body xs t = Inr s'"
    by (cases "body x s") auto
  have it: "I t" using Cons.prems(3)[of x s t] Cons.prems(2) t(1) by simp
  have step: "\<And>y u u'. y \<in> set xs \<Longrightarrow> I u \<Longrightarrow> body y u = Inr u' \<Longrightarrow> I u'"
  proof -
    fix y u u' assume "y \<in> set xs" "I u" "body y u = Inr u'"
    then show "I u'" using Cons.prems(3)[of y u u'] by simp
  qed
  show ?case by (rule Cons.IH[OF t(2) it step])
qed


lemma forOf_reaches:
  assumes "forOf body xs s = Inr s'" and "x \<in> set xs"
      and "\<And>t t'. body x t = Inr t' \<Longrightarrow> P t'"
      and "\<And>y t t'. y \<in> set xs \<Longrightarrow> P t \<Longrightarrow> body y t = Inr t' \<Longrightarrow> P t'"
  shows "P s'"
  using assms
proof (induction xs arbitrary: s)
  case Nil
  then show ?case by simp
next
  case (Cons a xs)
  from Cons.prems(1) obtain t where t: "body a s = Inr t" "forOf body xs t = Inr s'"
    by (cases "body a s") auto
  show ?case
  proof (cases "a = x")
    case True
    then have pt: "P t" using Cons.prems(3) t(1) by simp
    have step: "\<And>y u u'. y \<in> set xs \<Longrightarrow> P u \<Longrightarrow> body y u = Inr u' \<Longrightarrow> P u'"
    proof -
      fix y u u' assume "y \<in> set xs" "P u" "body y u = Inr u'"
      then show "P u'" using Cons.prems(4)[of y u u'] by simp
    qed
    show ?thesis by (rule forOf_invariant[where I = P, OF t(2) pt step])
  next
    case False
    then have mem: "x \<in> set xs" using Cons.prems(2) by simp
    have step: "\<And>y u u'. y \<in> set xs \<Longrightarrow> P u \<Longrightarrow> body y u = Inr u' \<Longrightarrow> P u'"
    proof -
      fix y u u' assume "y \<in> set xs" "P u" "body y u = Inr u'"
      then show "P u'" using Cons.prems(4)[of y u u'] by simp
    qed
    show ?thesis by (rule Cons.IH[OF t(2) mem Cons.prems(3) step])
  qed
qed

text \<open>The loop over required property sets.\<close>

lemma checkPset_Some:
  "checkPset (Some sets) reqPset (missing, h) =
     Inr (case List.find (\<lambda>ps. Name ps = Some reqPset) sets of
            None \<Rightarrow> (if reqPset \<in> set missing then missing else missing @ [reqPset], True)
          | Some found \<Rightarrow> (missing, h))"
  by (simp add: checkPset_def findPset_def split: option.splits)


lemma checkPsets_grows:
  assumes "checkPsets (Some sets) reqs (missing, h) = Inr (missing', h')"
  shows "set missing \<subseteq> set missing' \<and> (h \<longrightarrow> h')"
proof -
  have "(\<lambda>(ms, b). set missing \<subseteq> set ms \<and> (h \<longrightarrow> b)) (missing', h')"
    by (rule forOf_invariant[OF assms[unfolded checkPsets_def],
          where I = "\<lambda>(ms, b). set missing \<subseteq> set ms \<and> (h \<longrightarrow> b)"])
       (auto simp: checkPset_Some split: option.splits if_splits)
  then show ?thesis by simp
qed



lemma checkPsets_flag:
  assumes "checkPsets (Some sets) reqs (missing, h) = Inr (missing', h')" and "h'"
  shows "h \<or> missing' \<noteq> []"
proof -
  have "(\<lambda>(ms, b). b \<longrightarrow> h \<or> ms \<noteq> []) (missing', h')"
    by (rule forOf_invariant[OF assms(1)[unfolded checkPsets_def],
          where I = "\<lambda>(ms, b). b \<longrightarrow> h \<or> ms \<noteq> []"])
       (auto simp: checkPset_Some split: option.splits if_splits)
  then show ?thesis using assms(2) by simp
qed

section \<open>Validation: what each loop records\<close>

lemmas ev = validateElement_def validateElementBody_def wallLoader_def plainMesh_def
      wallItem_def barePset_def namedPset_def normalizedType_def applicableRules_def asciiRuntime_def
      toUpperChar_def or_zero_def findPset_def ensureEntry_def getMember_def checkRules_def checkRule_def
      checkPsets_def checkPset_def checkProperties_def checkProperty_def checkPropNames_def checkPropName_def
      objectPrototypeMembers_def

lemma entryOf_update: "entryOf (AList.update k v mp) k' = (if k' = k then v else entryOf mp k')"
  by (simp add: entryOf_def update_conv')

lemma entryOf_ensureEntry: "entryOf (ensureEntry k mp) k' = entryOf mp k'"
  by (simp add: entryOf_def ensureEntry_def getMember_def update_conv' split: option.splits)


lemma getMember_ensureEntry:
  "getMember (ensureEntry k mp) k =
     (if map_of mp k = None \<and> k \<in> set objectPrototypeMembers then Inherited
      else Own (entryOf mp k))"
  by (simp add: ensureEntry_def getMember_def entryOf_def update_conv' split: option.splits)

text \<open>One required property name, checked.\<close>

lemma checkPropName_cases:
  assumes "checkPropName props k a (mp, h) = Inr (mp', h')"
  shows "(list_ex (\<lambda>p. prop_Name p = Some a) props \<and> mp' = mp \<and> h' = h)
       \<or> (\<not> list_ex (\<lambda>p. prop_Name p = Some a) props \<and> h'
           \<and> getMember (ensureEntry k mp) k = Own (entryOf mp k)
           \<and> mp' = (if a \<in> set (entryOf mp k) then ensureEntry k mp
                    else AList.update k (entryOf mp k @ [a]) (ensureEntry k mp)))"
proof (cases "list_ex (\<lambda>p. prop_Name p = Some a) props")
  case True
  then show ?thesis using assms by (simp add: checkPropName_def)
next
  case False
  show ?thesis
  proof (cases "map_of mp k = None \<and> k \<in> set objectPrototypeMembers")
    case True
    then have "getMember (ensureEntry k mp) k = Inherited" by (simp add: getMember_ensureEntry)
    then show ?thesis using assms False by (simp add: checkPropName_def Let_def)
  next
    case nz: False
    then have g: "getMember (ensureEntry k mp) k = Own (entryOf mp k)"
      by (simp add: getMember_ensureEntry)
    then show ?thesis using assms False by (auto simp: checkPropName_def Let_def)
  qed
qed



lemma checkPropName_grows:
  "checkPropName props k a (mp, h) = Inr (mp', h') \<Longrightarrow>
     set (entryOf mp k') \<subseteq> set (entryOf mp' k') \<and> (h \<longrightarrow> h')"
  by (drule checkPropName_cases) (auto simp: entryOf_update entryOf_ensureEntry)

lemma checkPropName_distinct:
  "checkPropName props k a (mp, h) = Inr (mp', h') \<Longrightarrow> distinct (entryOf mp k') \<Longrightarrow>
     distinct (entryOf mp' k')"
  by (drule checkPropName_cases) (auto simp: entryOf_update entryOf_ensureEntry)

lemma checkPropName_records:
  "checkPropName props k a (mp, h) = Inr (mp', h') \<Longrightarrow>
   \<not> list_ex (\<lambda>p. prop_Name p = Some a) props \<Longrightarrow> a \<in> set (entryOf mp' k) \<and> h'"
  by (drule checkPropName_cases) (auto simp: entryOf_update entryOf_ensureEntry)

lemma checkPropName_flag:
  "checkPropName props k a (mp, h) = Inr (mp', h') \<Longrightarrow> h' \<Longrightarrow> h \<or> entryOf mp' k \<noteq> []"
  by (drule checkPropName_cases) (auto simp: entryOf_update entryOf_ensureEntry split: if_splits)



lemma checkPropNames_grows:
  assumes "checkPropNames props k reqs (mp, h) = Inr (mp', h')"
  shows "set (entryOf mp k') \<subseteq> set (entryOf mp' k') \<and> (h \<longrightarrow> h')"
proof -
  have "(\<lambda>(m, b). set (entryOf mp k') \<subseteq> set (entryOf m k') \<and> (h \<longrightarrow> b)) (mp', h')"
  proof (rule forOf_invariant[OF assms(1)[unfolded checkPropNames_def],
          where I = "\<lambda>(m, b). set (entryOf mp k') \<subseteq> set (entryOf m k') \<and> (h \<longrightarrow> b)"])
    show "case (mp, h) of (m, b) \<Rightarrow> set (entryOf mp k') \<subseteq> set (entryOf m k') \<and> (h \<longrightarrow> b)" by simp
  next
    fix x and t t' :: "(string \<times> string list) list \<times> bool"
    assume a: "case t of (m, b) \<Rightarrow> set (entryOf mp k') \<subseteq> set (entryOf m k') \<and> (h \<longrightarrow> b)"
              "checkPropName props k x t = Inr t'"
    obtain m b m' b' where "t = (m, b)" "t' = (m', b')" by (cases t, cases t')
    then show "case t' of (m, b) \<Rightarrow> set (entryOf mp k') \<subseteq> set (entryOf m k') \<and> (h \<longrightarrow> b)"
      using a checkPropName_grows[of props k x m b m' b' k'] by auto
  qed
  then show ?thesis by simp
qed

lemma checkPropNames_distinct:
  assumes "checkPropNames props k reqs (mp, h) = Inr (mp', h')" and "distinct (entryOf mp k')"
  shows "distinct (entryOf mp' k')"
proof -
  have "(\<lambda>(m, b). distinct (entryOf m k')) (mp', h')"
  proof (rule forOf_invariant[OF assms(1)[unfolded checkPropNames_def],
          where I = "\<lambda>(m, b). distinct (entryOf m k')"])
    show "case (mp, h) of (m, b) \<Rightarrow> distinct (entryOf m k')" using assms(2) by simp
  next
    fix x and t t' :: "(string \<times> string list) list \<times> bool"
    assume a: "case t of (m, b) \<Rightarrow> distinct (entryOf m k')" "checkPropName props k x t = Inr t'"
    obtain m b m' b' where "t = (m, b)" "t' = (m', b')" by (cases t, cases t')
    then show "case t' of (m, b) \<Rightarrow> distinct (entryOf m k')"
      using a checkPropName_distinct[of props k x m b m' b' k'] by simp
  qed
  then show ?thesis by simp
qed

lemma checkPropNames_records:
  assumes "checkPropNames props k reqs (mp, h) = Inr (mp', h')" and "a \<in> set reqs"
      and "\<not> list_ex (\<lambda>p. prop_Name p = Some a) props"
  shows "a \<in> set (entryOf mp' k) \<and> h'"
proof -
  have "(\<lambda>(m, b). a \<in> set (entryOf m k) \<and> b) (mp', h')"
  proof (rule forOf_reaches[OF assms(1)[unfolded checkPropNames_def] assms(2),
          where P = "\<lambda>(m, b). a \<in> set (entryOf m k) \<and> b"])
    fix t t' :: "(string \<times> string list) list \<times> bool"
    assume b: "checkPropName props k a t = Inr t'"
    obtain m b m' b' where "t = (m, b)" "t' = (m', b')" by (cases t, cases t')
    then show "case t' of (m, b) \<Rightarrow> a \<in> set (entryOf m k) \<and> b"
      using b checkPropName_records[of props k a m b m' b'] assms(3) by simp
  next
    fix y and t t' :: "(string \<times> string list) list \<times> bool"
    assume b: "case t of (m, b) \<Rightarrow> a \<in> set (entryOf m k) \<and> b" "checkPropName props k y t = Inr t'"
    obtain m b m' b' where "t = (m, b)" "t' = (m', b')" by (cases t, cases t')
    then show "case t' of (m, b) \<Rightarrow> a \<in> set (entryOf m k) \<and> b"
      using b checkPropName_grows[of props k y m b m' b' k] by auto
  qed
  then show ?thesis by simp
qed

lemma checkPropNames_flag:
  assumes "checkPropNames props k reqs (mp, h) = Inr (mp', h')" and "h'"
  shows "h \<or> entryOf mp' k \<noteq> []"
proof -
  have "(\<lambda>(m, b). b \<longrightarrow> h \<or> entryOf m k \<noteq> []) (mp', h')"
  proof (rule forOf_invariant[OF assms(1)[unfolded checkPropNames_def],
          where I = "\<lambda>(m, b). b \<longrightarrow> h \<or> entryOf m k \<noteq> []"])
    show "case (mp, h) of (m, b) \<Rightarrow> b \<longrightarrow> h \<or> entryOf m k \<noteq> []" by simp
  next
    fix x and t t' :: "(string \<times> string list) list \<times> bool"
    assume a: "case t of (m, b) \<Rightarrow> b \<longrightarrow> h \<or> entryOf m k \<noteq> []" "checkPropName props k x t = Inr t'"
    obtain m b m' b' where "t = (m, b)" "t' = (m', b')" by (cases t, cases t')
    then show "case t' of (m, b) \<Rightarrow> b \<longrightarrow> h \<or> entryOf m k \<noteq> []"
      using a checkPropName_flag[of props k x m b m' b'] checkPropName_grows[of props k x m b m' b' k]
      by auto
  qed
  then show ?thesis using assms(2) by simp
qed

text \<open>One entry of \<open>requiredProperties\<close>, checked against fetched property sets.\<close>

lemma checkProperty_cases:
  assumes "checkProperty (Some sets) (k, l) (mp, h) = Inr (mp', h')"
  shows "(List.find (\<lambda>ps. Name ps = Some k) sets = None \<and> mp' = mp \<and> h' = h)
       \<or> (\<exists>found props. List.find (\<lambda>ps. Name ps = Some k) sets = Some found
             \<and> HasProperties found = Some props
             \<and> checkPropNames props k l (mp, h) = Inr (mp', h'))
       \<or> (\<exists>found. List.find (\<lambda>ps. Name ps = Some k) sets = Some found
             \<and> HasProperties found = None \<and> h'
             \<and> mp' = AList.update k (entryOf mp k @ l) (ensureEntry k mp))"
proof (cases "List.find (\<lambda>ps. Name ps = Some k) sets")
  case None
  then show ?thesis using assms by (simp add: checkProperty_def findPset_def)
next
  case (Some found)
  show ?thesis
  proof (cases "HasProperties found")
    case (Some props)
    then show ?thesis using assms \<open>List.find (\<lambda>ps. Name ps = Some k) sets = Some found\<close>
      by (simp add: checkProperty_def findPset_def)
  next
    case None
    show ?thesis
    proof (cases "map_of mp k = None \<and> k \<in> set objectPrototypeMembers")
      case True
      then have "getMember (ensureEntry k mp) k = Inherited" by (simp add: getMember_ensureEntry)
      then show ?thesis using assms None \<open>List.find (\<lambda>ps. Name ps = Some k) sets = Some found\<close>
        by (simp add: checkProperty_def findPset_def Let_def)
    next
      case False
      then have "getMember (ensureEntry k mp) k = Own (entryOf mp k)"
        by (simp add: getMember_ensureEntry)
      then show ?thesis using assms None \<open>List.find (\<lambda>ps. Name ps = Some k) sets = Some found\<close>
        by (auto simp: checkProperty_def findPset_def Let_def)
    qed
  qed
qed



lemma checkProperty_grows:
  assumes "checkProperty (Some sets) (k, l) (mp, h) = Inr (mp', h')"
  shows "set (entryOf mp k') \<subseteq> set (entryOf mp' k') \<and> (h \<longrightarrow> h')"
proof -
  from checkProperty_cases[OF assms(1)] show ?thesis
  proof (elim disjE exE conjE)
    assume "mp' = mp" "h' = h" then show ?thesis by simp
  next
    fix found props
    assume "checkPropNames props k l (mp, h) = Inr (mp', h')"
    then show ?thesis by (rule checkPropNames_grows)
  next
    fix found
    assume "h'" "mp' = AList.update k (entryOf mp k @ l) (ensureEntry k mp)"
    then show ?thesis by (auto simp: entryOf_update entryOf_ensureEntry)
  qed
qed

lemma checkProperty_distinct:
  assumes "checkProperty (Some sets) (k, l) (mp, h) = Inr (mp', h')"
      and "\<forall>p \<in> set sets. HasProperties p \<noteq> None" and "distinct (entryOf mp k')"
  shows "distinct (entryOf mp' k')"
proof -
  from checkProperty_cases[OF assms(1)] show ?thesis
  proof (elim disjE exE conjE)
    assume "mp' = mp" then show ?thesis using assms(3) by simp
  next
    fix found props
    assume "checkPropNames props k l (mp, h) = Inr (mp', h')"
    then show ?thesis using assms(3) by (rule checkPropNames_distinct)
  next
    fix found
    assume a: "List.find (\<lambda>ps. Name ps = Some k) sets = Some found" "HasProperties found = None"
    then have "found \<in> set sets" by (auto simp: find_Some_iff)
    then show ?thesis using assms(2) a(2) by auto
  qed
qed

lemma checkProperty_records_bare:
  assumes "checkProperty (Some sets) (k, l) (mp, h) = Inr (mp', h')"
      and "List.find (\<lambda>ps. Name ps = Some k) sets = Some found" and "HasProperties found = None"
  shows "set l \<subseteq> set (entryOf mp' k) \<and> h'"
  using checkProperty_cases[OF assms(1)] assms(2,3) by (auto simp: entryOf_update)

lemma checkProperty_records_checked:
  assumes "checkProperty (Some sets) (k, l) (mp, h) = Inr (mp', h')"
      and "List.find (\<lambda>ps. Name ps = Some k) sets = Some found" and "HasProperties found = Some props"
      and "a \<in> set l" and "\<not> list_ex (\<lambda>p. prop_Name p = Some a) props"
  shows "a \<in> set (entryOf mp' k) \<and> h'"
proof -
  have "checkPropNames props k l (mp, h) = Inr (mp', h')"
    using checkProperty_cases[OF assms(1)] assms(2,3) by auto
  then show ?thesis using assms(4,5) by (rule checkPropNames_records)
qed

lemma checkProperty_flag:
  assumes "checkProperty (Some sets) (k, l) (mp, h) = Inr (mp', h')" and "h'" and "l \<noteq> []"
  shows "h \<or> entryOf mp' k \<noteq> []"
proof -
  from checkProperty_cases[OF assms(1)] show ?thesis
  proof (elim disjE exE conjE)
    assume "h' = h" then show ?thesis using assms(2) by simp
  next
    fix found props
    assume "checkPropNames props k l (mp, h) = Inr (mp', h')"
    then show ?thesis using assms(2) by (rule checkPropNames_flag)
  next
    fix found
    assume "mp' = AList.update k (entryOf mp k @ l) (ensureEntry k mp)"
    then show ?thesis using assms(3) by (simp add: entryOf_update)
  qed
qed


lemma checkProperties_invariant:
  assumes "checkProperties (Some sets) entries (mp, h) = Inr (mp', h')" and "I mp h"
      and "\<And>k l m b m' b'. (k, l) \<in> set entries \<Longrightarrow> I m b \<Longrightarrow>
             checkProperty (Some sets) (k, l) (m, b) = Inr (m', b') \<Longrightarrow> I m' b'"
  shows "I mp' h'"
proof -
  have "(\<lambda>(m, b). I m b) (mp', h')"
  proof (rule forOf_invariant[OF assms(1)[unfolded checkProperties_def], where I = "\<lambda>(m, b). I m b"])
    show "case (mp, h) of (m, b) \<Rightarrow> I m b" using assms(2) by simp
  next
    fix x :: "string \<times> string list" and t t' :: "(string \<times> string list) list \<times> bool"
    assume a: "x \<in> set entries" "case t of (m, b) \<Rightarrow> I m b" "checkProperty (Some sets) x t = Inr t'"
    obtain k l m b m' b' where e: "x = (k, l)" "t = (m, b)" "t' = (m', b')"
      by (cases x, cases t, cases t')
    then show "case t' of (m, b) \<Rightarrow> I m b" using a assms(3)[of k l m b m' b'] by simp
  qed
  then show ?thesis by simp
qed

lemma checkProperties_reaches:
  assumes "checkProperties (Some sets) entries (mp, h) = Inr (mp', h')" and "(k, l) \<in> set entries"
      and "\<And>m b m' b'. checkProperty (Some sets) (k, l) (m, b) = Inr (m', b') \<Longrightarrow> P m' b'"
      and "\<And>k0 l0 m b m' b'. (k0, l0) \<in> set entries \<Longrightarrow> P m b \<Longrightarrow>
             checkProperty (Some sets) (k0, l0) (m, b) = Inr (m', b') \<Longrightarrow> P m' b'"
  shows "P mp' h'"
proof -
  have "(\<lambda>(m, b). P m b) (mp', h')"
  proof (rule forOf_reaches[OF assms(1)[unfolded checkProperties_def] assms(2), where P = "\<lambda>(m, b). P m b"])
    fix t t' :: "(string \<times> string list) list \<times> bool"
    assume a: "checkProperty (Some sets) (k, l) t = Inr t'"
    obtain m b m' b' where e: "t = (m, b)" "t' = (m', b')" by (cases t, cases t')
    then show "case t' of (m, b) \<Rightarrow> P m b" using a assms(3)[of m b m' b'] by simp
  next
    fix y :: "string \<times> string list" and t t' :: "(string \<times> string list) list \<times> bool"
    assume a: "y \<in> set entries" "case t of (m, b) \<Rightarrow> P m b" "checkProperty (Some sets) y t = Inr t'"
    obtain k0 l0 m b m' b' where e: "y = (k0, l0)" "t = (m, b)" "t' = (m', b')"
      by (cases y, cases t, cases t')
    then show "case t' of (m, b) \<Rightarrow> P m b" using a assms(4)[of k0 l0 m b m' b'] by simp
  qed
  then show ?thesis by simp
qed


lemma checkProperties_grows:
  assumes "checkProperties (Some sets) entries (mp, h) = Inr (mp', h')"
  shows "set (entryOf mp k') \<subseteq> set (entryOf mp' k') \<and> (h \<longrightarrow> h')"
proof (rule checkProperties_invariant[OF assms(1),
        where I = "\<lambda>m b. set (entryOf mp k') \<subseteq> set (entryOf m k') \<and> (h \<longrightarrow> b)"])
  show "set (entryOf mp k') \<subseteq> set (entryOf mp k') \<and> (h \<longrightarrow> h)" by simp
next
  fix k l m b m' b'
  assume "set (entryOf mp k') \<subseteq> set (entryOf m k') \<and> (h \<longrightarrow> b)"
         "checkProperty (Some sets) (k, l) (m, b) = Inr (m', b')"
  then show "set (entryOf mp k') \<subseteq> set (entryOf m' k') \<and> (h \<longrightarrow> b')"
    using checkProperty_grows[of sets k l m b m' b' k'] by auto
qed

lemma checkProperties_distinct:
  assumes "checkProperties (Some sets) entries (mp, h) = Inr (mp', h')"
      and "\<forall>p \<in> set sets. HasProperties p \<noteq> None" and "distinct (entryOf mp k')"
  shows "distinct (entryOf mp' k')"
  by (rule checkProperties_invariant[OF assms(1), where I = "\<lambda>m b. distinct (entryOf m k')"])
     (use assms(2,3) checkProperty_distinct in blast)+

lemma checkProperties_records_bare:
  assumes "checkProperties (Some sets) entries (mp, h) = Inr (mp', h')" and "(k, l) \<in> set entries"
      and "List.find (\<lambda>ps. Name ps = Some k) sets = Some found" and "HasProperties found = None"
  shows "set l \<subseteq> set (entryOf mp' k) \<and> h'"
proof (rule checkProperties_reaches[OF assms(1,2), where P = "\<lambda>m b. set l \<subseteq> set (entryOf m k) \<and> b"])
  fix m b m' b'
  assume "checkProperty (Some sets) (k, l) (m, b) = Inr (m', b')"
  then show "set l \<subseteq> set (entryOf m' k) \<and> b'" using assms(3,4) by (rule checkProperty_records_bare)
next
  fix k0 l0 m b m' b'
  assume "set l \<subseteq> set (entryOf m k) \<and> b" "checkProperty (Some sets) (k0, l0) (m, b) = Inr (m', b')"
  then show "set l \<subseteq> set (entryOf m' k) \<and> b'"
    using checkProperty_grows[of sets k0 l0 m b m' b' k] by auto
qed

lemma checkProperties_records_checked:
  assumes "checkProperties (Some sets) entries (mp, h) = Inr (mp', h')" and "(k, l) \<in> set entries"
      and "List.find (\<lambda>ps. Name ps = Some k) sets = Some found" and "HasProperties found = Some props"
      and "a \<in> set l" and "\<not> list_ex (\<lambda>p. prop_Name p = Some a) props"
  shows "a \<in> set (entryOf mp' k) \<and> h'"
proof (rule checkProperties_reaches[OF assms(1,2), where P = "\<lambda>m b. a \<in> set (entryOf m k) \<and> b"])
  fix m b m' b'
  assume "checkProperty (Some sets) (k, l) (m, b) = Inr (m', b')"
  then show "a \<in> set (entryOf m' k) \<and> b'" using assms(3,4,5,6) by (rule checkProperty_records_checked)
next
  fix k0 l0 m b m' b'
  assume "a \<in> set (entryOf m k) \<and> b" "checkProperty (Some sets) (k0, l0) (m, b) = Inr (m', b')"
  then show "a \<in> set (entryOf m' k) \<and> b'"
    using checkProperty_grows[of sets k0 l0 m b m' b' k] by auto
qed

lemma checkProperties_flag:
  assumes "checkProperties (Some sets) entries (mp, h) = Inr (mp', h')" and "h'"
      and "\<forall>(k, l) \<in> set entries. l \<noteq> []"
  shows "h \<or> (\<exists>k. entryOf mp' k \<noteq> [])"
proof -
  have "h' \<longrightarrow> h \<or> (\<exists>k. entryOf mp' k \<noteq> [])"
  proof (rule checkProperties_invariant[OF assms(1),
          where I = "\<lambda>m b. b \<longrightarrow> h \<or> (\<exists>k. entryOf m k \<noteq> [])"])
    show "h \<longrightarrow> h \<or> (\<exists>k. entryOf mp k \<noteq> [])" by simp
  next
    fix k l m b m' b'
    assume a: "(k, l) \<in> set entries" "b \<longrightarrow> h \<or> (\<exists>k. entryOf m k \<noteq> [])"
              "checkProperty (Some sets) (k, l) (m, b) = Inr (m', b')"
    have l: "l \<noteq> []" using a(1) assms(3) by auto
    show "b' \<longrightarrow> h \<or> (\<exists>k. entryOf m' k \<noteq> [])"
    proof
      assume b': "b'"
      from checkProperty_flag[OF a(3) b' l] have "b \<or> entryOf m' k \<noteq> []" .
      moreover have "entryOf m k0 \<noteq> [] \<Longrightarrow> entryOf m' k0 \<noteq> []" for k0
        using checkProperty_grows[OF a(3), of k0] by auto
      ultimately show "h \<or> (\<exists>k. entryOf m' k \<noteq> [])" using a(2) by blast
    qed
  qed
  then show ?thesis using assms(2) by simp
qed

text \<open>One applicable rule, and the loop over the applicable rules.\<close>

lemma checkRule_cases:
  assumes "checkRule (Some sets) rule (missing, mp, h) = Inr (missing', mp', h')"
  shows "\<exists>h1. checkPsets (Some sets) (requiredPsets rule) (missing, h) = Inr (missing', h1)
            \<and> checkProperties (Some sets) (requiredProperties rule) (mp, h1) = Inr (mp', h')"
  using assms by (auto simp: checkRule_def split: sum.splits)


lemma checkRules_invariant:
  assumes "checkRules (Some sets) rules (missing, mp, h) = Inr (missing', mp', h')" and "I missing mp h"
      and "\<And>rule ms m b ms' m' b'. rule \<in> set rules \<Longrightarrow> I ms m b \<Longrightarrow>
             checkRule (Some sets) rule (ms, m, b) = Inr (ms', m', b') \<Longrightarrow> I ms' m' b'"
  shows "I missing' mp' h'"
proof -
  have "(\<lambda>(ms, m, b). I ms m b) (missing', mp', h')"
  proof (rule forOf_invariant[OF assms(1)[unfolded checkRules_def], where I = "\<lambda>(ms, m, b). I ms m b"])
    show "case (missing, mp, h) of (ms, m, b) \<Rightarrow> I ms m b" using assms(2) by simp
  next
    fix x :: ValidationRule and t t' :: "string list \<times> (string \<times> string list) list \<times> bool"
    assume a: "x \<in> set rules" "case t of (ms, m, b) \<Rightarrow> I ms m b" "checkRule (Some sets) x t = Inr t'"
    obtain ms m b ms' m' b' where e: "t = (ms, m, b)" "t' = (ms', m', b')"
      by (cases t, cases t')
    then show "case t' of (ms, m, b) \<Rightarrow> I ms m b" using a assms(3)[of x ms m b ms' m' b'] by simp
  qed
  then show ?thesis by simp
qed

lemma checkRules_reaches:
  assumes "checkRules (Some sets) rules (missing, mp, h) = Inr (missing', mp', h')" and "rule \<in> set rules"
      and "\<And>ms m b ms' m' b'. checkRule (Some sets) rule (ms, m, b) = Inr (ms', m', b') \<Longrightarrow> P ms' m' b'"
      and "\<And>r ms m b ms' m' b'. r \<in> set rules \<Longrightarrow> P ms m b \<Longrightarrow>
             checkRule (Some sets) r (ms, m, b) = Inr (ms', m', b') \<Longrightarrow> P ms' m' b'"
  shows "P missing' mp' h'"
proof -
  have "(\<lambda>(ms, m, b). P ms m b) (missing', mp', h')"
  proof (rule forOf_reaches[OF assms(1)[unfolded checkRules_def] assms(2), where P = "\<lambda>(ms, m, b). P ms m b"])
    fix t t' :: "string list \<times> (string \<times> string list) list \<times> bool"
    assume a: "checkRule (Some sets) rule t = Inr t'"
    obtain ms m b ms' m' b' where e: "t = (ms, m, b)" "t' = (ms', m', b')" by (cases t, cases t')
    then show "case t' of (ms, m, b) \<Rightarrow> P ms m b" using a assms(3)[of ms m b ms' m' b'] by simp
  next
    fix y :: ValidationRule and t t' :: "string list \<times> (string \<times> string list) list \<times> bool"
    assume a: "y \<in> set rules" "case t of (ms, m, b) \<Rightarrow> P ms m b" "checkRule (Some sets) y t = Inr t'"
    obtain ms m b ms' m' b' where e: "t = (ms, m, b)" "t' = (ms', m', b')" by (cases t, cases t')
    then show "case t' of (ms, m, b) \<Rightarrow> P ms m b" using a assms(4)[of y ms m b ms' m' b'] by simp
  qed
  then show ?thesis by simp
qed


lemma checkRule_grows:
  assumes "checkRule (Some sets) rule (ms, m, b) = Inr (ms', m', b')"
  shows "set ms \<subseteq> set ms' \<and> set (entryOf m k) \<subseteq> set (entryOf m' k) \<and> (b \<longrightarrow> b')"
proof -
  obtain h1 where a: "checkPsets (Some sets) (requiredPsets rule) (ms, b) = Inr (ms', h1)"
    and c: "checkProperties (Some sets) (requiredProperties rule) (m, h1) = Inr (m', b')"
    using checkRule_cases[OF assms] by blast
  show ?thesis using checkPsets_grows[OF a] checkProperties_grows[OF c, of k] by auto
qed

lemma checkRules_grows:
  assumes "checkRules (Some sets) rules (missing, mp, h) = Inr (missing', mp', h')"
  shows "set missing \<subseteq> set missing' \<and> set (entryOf mp k) \<subseteq> set (entryOf mp' k) \<and> (h \<longrightarrow> h')"
proof (rule checkRules_invariant[OF assms,
        where I = "\<lambda>ms m b. set missing \<subseteq> set ms \<and> set (entryOf mp k) \<subseteq> set (entryOf m k) \<and> (h \<longrightarrow> b)"])
  show "set missing \<subseteq> set missing \<and> set (entryOf mp k) \<subseteq> set (entryOf mp k) \<and> (h \<longrightarrow> h)" by simp
next
  fix rule ms m b ms' m' b'
  assume "set missing \<subseteq> set ms \<and> set (entryOf mp k) \<subseteq> set (entryOf m k) \<and> (h \<longrightarrow> b)"
         "checkRule (Some sets) rule (ms, m, b) = Inr (ms', m', b')"
  then show "set missing \<subseteq> set ms' \<and> set (entryOf mp k) \<subseteq> set (entryOf m' k) \<and> (h \<longrightarrow> b')"
    using checkRule_grows[of sets rule ms m b ms' m' b' k] by auto
qed




lemma checkRules_entries_distinct:
  assumes "checkRules (Some sets) rules (missing, mp, h) = Inr (missing', mp', h')"
      and "\<forall>p \<in> set sets. HasProperties p \<noteq> None" and "distinct (entryOf mp k)"
  shows "distinct (entryOf mp' k)"
proof (rule checkRules_invariant[OF assms(1), where I = "\<lambda>ms m b. distinct (entryOf m k)"])
  show "distinct (entryOf mp k)" by fact
next
  fix rule ms m b ms' m' b'
  assume "distinct (entryOf m k)" "checkRule (Some sets) rule (ms, m, b) = Inr (ms', m', b')"
  then show "distinct (entryOf m' k)"
    using checkRule_cases checkProperties_distinct[OF _ assms(2)] by blast
qed

lemma checkRules_records_bare:
  assumes "checkRules (Some sets) rules (missing, mp, h) = Inr (missing', mp', h')"
      and "rule \<in> set rules" and "(k, l) \<in> set (requiredProperties rule)"
      and "List.find (\<lambda>ps. Name ps = Some k) sets = Some found" and "HasProperties found = None"
  shows "set l \<subseteq> set (entryOf mp' k) \<and> h'"
proof (rule checkRules_reaches[OF assms(1,2), where P = "\<lambda>ms m b. set l \<subseteq> set (entryOf m k) \<and> b"])
  fix ms m b ms' m' b'
  assume "checkRule (Some sets) rule (ms, m, b) = Inr (ms', m', b')"
  then obtain h1 where c: "checkProperties (Some sets) (requiredProperties rule) (m, h1) = Inr (m', b')"
    using checkRule_cases by blast
  show "set l \<subseteq> set (entryOf m' k) \<and> b'"
    by (rule checkProperties_records_bare[OF c assms(3,4,5)])
next
  fix r0 ms m b ms' m' b'
  assume "set l \<subseteq> set (entryOf m k) \<and> b" "checkRule (Some sets) r0 (ms, m, b) = Inr (ms', m', b')"
  then show "set l \<subseteq> set (entryOf m' k) \<and> b'" using checkRule_grows[of sets r0 ms m b ms' m' b' k] by auto
qed

lemma checkRules_records_checked:
  assumes "checkRules (Some sets) rules (missing, mp, h) = Inr (missing', mp', h')"
      and "rule \<in> set rules" and "(k, l) \<in> set (requiredProperties rule)"
      and "List.find (\<lambda>ps. Name ps = Some k) sets = Some found" and "HasProperties found = Some props"
      and "a \<in> set l" and "\<not> list_ex (\<lambda>p. prop_Name p = Some a) props"
  shows "a \<in> set (entryOf mp' k) \<and> h'"
proof (rule checkRules_reaches[OF assms(1,2), where P = "\<lambda>ms m b. a \<in> set (entryOf m k) \<and> b"])
  fix ms m b ms' m' b'
  assume "checkRule (Some sets) rule (ms, m, b) = Inr (ms', m', b')"
  then obtain h1 where c: "checkProperties (Some sets) (requiredProperties rule) (m, h1) = Inr (m', b')"
    using checkRule_cases by blast
  show "a \<in> set (entryOf m' k) \<and> b'"
    by (rule checkProperties_records_checked[OF c assms(3,4,5,6,7)])
next
  fix r0 ms m b ms' m' b'
  assume "a \<in> set (entryOf m k) \<and> b" "checkRule (Some sets) r0 (ms, m, b) = Inr (ms', m', b')"
  then show "a \<in> set (entryOf m' k) \<and> b'" using checkRule_grows[of sets r0 ms m b ms' m' b' k] by auto
qed

lemma checkRules_flag:
  assumes "checkRules (Some sets) rules (missing, mp, h) = Inr (missing', mp', h')" and "h'"
      and "\<forall>rule \<in> set rules. \<forall>(k, l) \<in> set (requiredProperties rule). l \<noteq> []"
  shows "h \<or> missing' \<noteq> [] \<or> (\<exists>k. entryOf mp' k \<noteq> [])"
proof -
  have "h' \<longrightarrow> h \<or> missing' \<noteq> [] \<or> (\<exists>k. entryOf mp' k \<noteq> [])"
  proof (rule checkRules_invariant[OF assms(1),
          where I = "\<lambda>ms m b. b \<longrightarrow> h \<or> ms \<noteq> [] \<or> (\<exists>k. entryOf m k \<noteq> [])"])
    show "h \<longrightarrow> h \<or> missing \<noteq> [] \<or> (\<exists>k. entryOf mp k \<noteq> [])" by simp
  next
    fix rule ms m b ms' m' b'
    assume a: "rule \<in> set rules" "b \<longrightarrow> h \<or> ms \<noteq> [] \<or> (\<exists>k. entryOf m k \<noteq> [])"
              "checkRule (Some sets) rule (ms, m, b) = Inr (ms', m', b')"
    obtain h1 where p: "checkPsets (Some sets) (requiredPsets rule) (ms, b) = Inr (ms', h1)"
      and c: "checkProperties (Some sets) (requiredProperties rule) (m, h1) = Inr (m', b')"
      using checkRule_cases[OF a(3)] by blast
    have l: "\<forall>(k, l) \<in> set (requiredProperties rule). l \<noteq> []" using assms(3) a(1) by blast
    show "b' \<longrightarrow> h \<or> ms' \<noteq> [] \<or> (\<exists>k. entryOf m' k \<noteq> [])"
    proof
      assume b': "b'"
      have 1: "h1 \<or> (\<exists>k. entryOf m' k \<noteq> [])" using checkProperties_flag[OF c b' l] .
      have 2: "h1 \<Longrightarrow> b \<or> ms' \<noteq> []" using checkPsets_flag[OF p] by simp
      have 3: "ms \<noteq> [] \<Longrightarrow> ms' \<noteq> []" using checkPsets_grows[OF p] by auto
      have 4: "entryOf m k0 \<noteq> [] \<Longrightarrow> entryOf m' k0 \<noteq> []" for k0
        using checkProperties_grows[OF c, of k0] by auto
      show "h \<or> ms' \<noteq> [] \<or> (\<exists>k. entryOf m' k \<noteq> [])" using 1 2 3 4 a(2) by blast
    qed
  qed
  then show ?thesis using assms(2) by simp
qed

text \<open>A \<^verbatim>\<open>null\<close> answer for the property sets: nothing can be looked up, so nothing changes.\<close>

lemma checkRule_null:
  assumes "checkRule None rule acc = Inr acc'"
  shows "acc' = acc"
proof -
  obtain ms m b where acc: "acc = (ms, m, b)" by (cases acc)
  have ps: "checkPsets None reqs (ms, b) = Inr t \<Longrightarrow> t = (ms, b)" for reqs t
    by (cases reqs) (simp_all add: checkPsets_def checkPset_def findPset_def)
  have pr: "checkProperties None es (m, h1) = Inr t \<Longrightarrow> t = (m, h1)" for es t h1
    by (cases es) (auto simp: checkProperties_def checkProperty_def findPset_def)
  obtain ms' h1 where a: "checkPsets None (requiredPsets rule) (ms, b) = Inr (ms', h1)"
    using assms unfolding acc by (auto simp: checkRule_def split: sum.splits)
  then have a': "ms' = ms" "h1 = b" using ps[OF a] by simp_all
  obtain m' b' where c: "checkProperties None (requiredProperties rule) (m, h1) = Inr (m', b')"
    and r: "acc' = (ms', m', b')"
    using assms a unfolding acc by (auto simp: checkRule_def split: sum.splits)
  have "m' = m" "b' = h1" using pr[OF c] by simp_all
  then show ?thesis using a' r acc by simp
qed

lemma checkRules_null:
  assumes "checkRules None rules acc = Inr acc'"
  shows "acc' = acc"
  by (rule forOf_invariant[OF assms[unfolded checkRules_def], where I = "\<lambda>t. t = acc"])
     (use checkRule_null in blast)+

text \<open>What a result of \<^verbatim>\<open>validateElement\<close> tells about the run that produced it.\<close>

lemma validateElement_Some:
  assumes "validateElement J L m rules = Some r"
  shows "\<exists>props normalized propertySets missing mp h.
           getItemProperties L (or_zero (mesh_modelID m)) (mesh_expressID m) = Inr props
         \<and> normalizedType J props = Inr normalized
         \<and> getPropertySets L (or_zero (mesh_modelID m)) (mesh_expressID m) = Inr propertySets
         \<and> applicableRules J normalized rules \<noteq> []
         \<and> checkRules propertySets (applicableRules J normalized rules) ([], [], False) = Inr (missing, mp, h)
         \<and> passed r = (\<not> h)
         \<and> elementID r = mesh_expressID m \<and> modelID r = or_zero (mesh_modelID m)
         \<and> (h \<longrightarrow> missingPsets r = missing \<and> missingProperties r = mp)
         \<and> (\<not> h \<longrightarrow> missingPsets r = [] \<and> missingProperties r = [])"
  using assms
  by (auto simp: validateElement_def validateElementBody_def Let_def
           split: sum.splits option.splits if_splits prod.splits)

lemma validateElement_failing:
  assumes "validateElement J L m rules = Some r" and "\<not> passed r"
  shows "\<exists>props normalized sets.
           getItemProperties L (or_zero (mesh_modelID m)) (mesh_expressID m) = Inr props
         \<and> normalizedType J props = Inr normalized
         \<and> getPropertySets L (or_zero (mesh_modelID m)) (mesh_expressID m) = Inr (Some sets)
         \<and> checkRules (Some sets) (applicableRules J normalized rules) ([], [], False)
             = Inr (missingPsets r, missingProperties r, True)"
proof -
  obtain props normalized propertySets missing mp h where
    a: "getItemProperties L (or_zero (mesh_modelID m)) (mesh_expressID m) = Inr props"
       "normalizedType J props = Inr normalized"
       "getPropertySets L (or_zero (mesh_modelID m)) (mesh_expressID m) = Inr propertySets"
       "checkRules propertySets (applicableRules J normalized rules) ([], [], False) = Inr (missing, mp, h)"
       "passed r = (\<not> h)" "h \<longrightarrow> missingPsets r = missing \<and> missingProperties r = mp"
    using validateElement_Some[OF assms(1)] by blast
  have h: "h" using a(5) assms(2) by simp
  have "propertySets \<noteq> None"
  proof
    assume "propertySets = None"
    then have "(missing, mp, h) = ([], [], False)" using checkRules_null a(4) by blast
    then show False using h by simp
  qed
  then obtain sets where "propertySets = Some sets" by auto
  then show ?thesis using a h by auto
qed


section \<open>Validation: running without a model\<close>

text \<open>
  C1 (as the code has it). When no model is live, \<^verbatim>\<open>validateModel\<close> does not fail: the
  guard prints a warning and the promise resolves with the empty result list; no rule is
  looked at and \<^verbatim>\<open>onProgress\<close> is never called.
\<close>

theorem validateModel_no_model:
  assumes "currentModel s = None"
  shows "validateModel J L s rules hasCallback = (Inr [], [], [''No model loaded to validate.''])"
  using assms by (simp add: validateModel_def getCurrentModel_def)

theorem validateModel_no_model_witness:
  "currentModel (idle None) = None
   \<and> validateModel asciiRuntime deadLoader (idle None) [wallRule] True = (Inr [], [], [''No model loaded to validate.''])"
  using validateModel_no_model[of "idle None" asciiRuntime deadLoader "[wallRule]" True]
  by (simp add: idle_def)

text \<open>
  C1 as stated asks for a failure instead of a result list. With no model the settled
  promise is the ordinary empty list, not a rejection.
\<close>

theorem validateModel_no_model_counterexample:
  "fst (validateModel asciiRuntime deadLoader (idle None) [wallRule] True) = Inr []
   \<and> \<not> isl (fst (validateModel asciiRuntime deadLoader (idle None) [wallRule] True))"
  by (simp add: validateModel_def getCurrentModel_def idle_def)

section \<open>Validation: missing property sets\<close>




section \<open>Validation: missing properties of a set without properties\<close>

text \<open>
  What a returned result lists under a set name: all the required names of a found set
  without a \<^verbatim>\<open>HasProperties\<close> array, and every required name that a found set's
  \<^verbatim>\<open>HasProperties\<close> array lacks. When every fetched set has such an array, no name is
  listed twice.
\<close>

lemma validateElement_bare_set:
  assumes "validateElement J L m rules = Some r"
      and "getItemProperties L (or_zero (mesh_modelID m)) (mesh_expressID m) = Inr props"
      and "normalizedType J props = Inr normalized"
      and "getPropertySets L (or_zero (mesh_modelID m)) (mesh_expressID m) = Inr (Some sets)"
      and "rule \<in> set rules" "str_includes normalized (toUpperCase J (ifcClass rule))"
      and "(psetName, reqProps) \<in> set (requiredProperties rule)"
      and "findPset (Some sets) psetName = Inr (Some foundPset)" "HasProperties foundPset = None"
  shows "\<not> passed r \<and> set reqProps \<subseteq> set (entryOf (missingProperties r) psetName)"
proof -
  let ?app = "applicableRules J normalized rules"
  have app: "rule \<in> set ?app" using assms(5,6) by (simp add: applicableRules_def)
  have f: "List.find (\<lambda>ps. Name ps = Some psetName) sets = Some foundPset"
    using assms(8) by (simp add: findPset_def)
  obtain missing mp h where
    c: "checkRules (Some sets) ?app ([], [], False) = Inr (missing, mp, h)"
    and p: "passed r = (\<not> h)" "h \<longrightarrow> missingPsets r = missing \<and> missingProperties r = mp"
    using validateElement_Some[OF assms(1)] assms(2,3,4) by auto
  have "set reqProps \<subseteq> set (entryOf mp psetName) \<and> h"
    by (rule checkRules_records_bare[OF c app assms(7) f assms(9)])
  then show ?thesis using p by simp
qed

lemma validateElement_checked_set:
  assumes "validateElement J L m rules = Some r"
      and "getItemProperties L (or_zero (mesh_modelID m)) (mesh_expressID m) = Inr props"
      and "normalizedType J props = Inr normalized"
      and "getPropertySets L (or_zero (mesh_modelID m)) (mesh_expressID m) = Inr (Some sets)"
      and "rule \<in> set rules" "str_includes normalized (toUpperCase J (ifcClass rule))"
      and "(psetName, reqProps) \<in> set (requiredProperties rule)"
      and "findPset (Some sets) psetName = Inr (Some foundPset)" "HasProperties foundPset = Some has"
      and "propName \<in> set reqProps" "\<not> list_ex (\<lambda>p. prop_Name p = Some propName) has"
  shows "\<not> passed r \<and> propName \<in> set (entryOf (missingProperties r) psetName)"
proof -
  let ?app = "applicableRules J normalized rules"
  have app: "rule \<in> set ?app" using assms(5,6) by (simp add: applicableRules_def)
  have f: "List.find (\<lambda>ps. Name ps = Some psetName) sets = Some foundPset"
    using assms(8) by (simp add: findPset_def)
  obtain missing mp h where
    c: "checkRules (Some sets) ?app ([], [], False) = Inr (missing, mp, h)"
    and p: "passed r = (\<not> h)" "h \<longrightarrow> missingPsets r = missing \<and> missingProperties r = mp"
    using validateElement_Some[OF assms(1)] assms(2,3,4) by auto
  have "propName \<in> set (entryOf mp psetName) \<and> h"
    by (rule checkRules_records_checked[OF c app assms(7) f assms(9,10,11)])
  then show ?thesis using p by simp
qed

lemma validateElement_entries_distinct:
  assumes "validateElement J L m rules = Some r"
      and "getPropertySets L (or_zero (mesh_modelID m)) (mesh_expressID m) = Inr (Some sets)"
      and "\<forall>p \<in> set sets. HasProperties p \<noteq> None"
  shows "distinct (entryOf (missingProperties r) psetName)"
proof (cases "passed r")
  case True
  then have "missingProperties r = []" using validateElement_Some[OF assms(1)] by auto
  then show ?thesis by (simp add: entryOf_def)
next
  case False
  obtain normalized sets' where
    a: "getPropertySets L (or_zero (mesh_modelID m)) (mesh_expressID m) = Inr (Some sets')"
       "checkRules (Some sets') (applicableRules J normalized rules) ([], [], False)
             = Inr (missingPsets r, missingProperties r, True)"
    using validateElement_failing[OF assms(1) False] by blast
  then have "sets' = sets" using assms(2) by simp
  then show ?thesis
    using checkRules_entries_distinct[OF a(2)[unfolded \<open>sets' = sets\<close>] assms(3), of psetName]
    by (simp add: entryOf_def)
qed

text \<open>
  C7, evaluated where it breaks. Two rules apply to the wall (\<^verbatim>\<open>IFCWALL\<close> and \<^verbatim>\<open>Wall\<close>)
  and both require \<^verbatim>\<open>LoadBearing\<close> of \<^verbatim>\<open>Pset_WallCommon\<close>. The set is present without a
  \<^verbatim>\<open>HasProperties\<close> array, so each rule pushes its required names unchecked, and the
  name is listed twice.
\<close>

theorem validateElement_duplicate_missing_property:
  "validateElement asciiRuntime (wallLoader (Inr (Some [barePset]))) (plainMesh 7)
     [loadBearingRule ''IFCWALL'', loadBearingRule ''Wall''] =
   Some \<lparr>elementID = JNum 7, modelID = JNum 0, result_ifcClass = ''IFCWALLSTANDARDCASE'',
          missingPsets = [],
          missingProperties = [(''Pset_WallCommon'', [''LoadBearing'', ''LoadBearing''])],
          passed = False\<rparr>"
  by (simp add: ev loadBearingRule_def)

section \<open>Validation: progress reports\<close>

lemma validateLoop_reported:
  "snd (snd (validateLoop J L rules True t ms (p, res, rep))) =
     rep @ map (\<lambda>q. roundPercent q t) (filter (\<lambda>q. q mod 10 = 0) [Suc p ..< Suc (p + length ms)])"
proof (induction ms arbitrary: p res rep)
  case Nil
  then show ?case by simp
next
  case (Cons m ms)
  have "[Suc p ..< Suc (p + length (m # ms))] = Suc p # [Suc (Suc p) ..< Suc (Suc p + length ms)]"
    by (subst upt_rec) simp
  then show ?case using Cons.IH[of "Suc p"]
    by (simp add: Let_def del: upt_Suc)
qed

lemma sorted_reported:
  assumes "0 < t" "0 < a"
  shows "sorted (map (\<lambda>q. roundPercent q t) (filter P [a ..< b]))"
proof -
  have "sorted_wrt (\<lambda>x y. roundPercent x t \<le> roundPercent y t) [a ..< b]"
  proof (rule sorted_wrt_mono_rel[where P = "(\<lambda>x y. x \<le> y)"])
    show "sorted_wrt (\<le>) [a ..< b]" by simp
  next
    fix x y assume "x \<in> set [a ..< b]" "y \<in> set [a ..< b]" "x \<le> y"
    then show "roundPercent x t \<le> roundPercent y t"
      using roundPercent_mono[of x y t] assms by simp
  qed
  then have "sorted_wrt (\<lambda>x y. roundPercent x t \<le> roundPercent y t) (filter P [a ..< b])"
    by (rule sorted_wrt_filter)
  then show ?thesis by (simp add: sorted_map)
qed

lemma validateModel_reported:
  assumes "currentModel s = Some m"
  shows "fst (snd (validateModel J L s rules True)) =
     map (\<lambda>q. roundPercent q (length (indexedMeshes m)))
         (filter (\<lambda>q. q mod 10 = 0) [1 ..< length (indexedMeshes m) + 1]) @ [100]"
proof -
  obtain p res rep where v: "validateLoop J L rules True (length (indexedMeshes m)) (indexedMeshes m) (0, [], []) = (p, res, rep)"
    by (cases "validateLoop J L rules True (length (indexedMeshes m)) (indexedMeshes m) (0, [], [])") auto
  have "rep = map (\<lambda>q. roundPercent q (length (indexedMeshes m)))
         (filter (\<lambda>q. q mod 10 = 0) [Suc 0 ..< Suc (0 + length (indexedMeshes m))])"
    using validateLoop_reported[of J L rules "length (indexedMeshes m)" "indexedMeshes m" 0 "[]" "[]"] v
    by simp
  then show ?thesis using assms v
    by (simp add: validateModel_def getCurrentModel_def Let_def)
qed

text \<open>
  C8. With a callback and a live model of \<open>n\<close> indexed meshes, the values reported are the
  percentage \<^verbatim>\<open>Math.round((q / n) * 100)\<close>, computed in double precision, for every
  multiple \<open>q\<close> of ten up to \<open>n\<close>, in order, followed by one final 100. Each of these
  percentages is the exact percentage \<open>100 * q / n\<close> rounded down or rounded up to an
  integer. The sequence never decreases, never exceeds 100 and ends with 100.
\<close>

theorem validateModel_progress:
  assumes "currentModel s = Some m" and "n = length (indexedMeshes m)"
      and "reported = fst (snd (validateModel J L s rules True))"
  shows "reported = map (\<lambda>q. roundPercent q n) (filter (\<lambda>q. q mod 10 = 0) [1 ..< n + 1]) @ [100]
       \<and> (\<forall>q \<in> {1 .. n}. int (roundPercent q n) \<in>
             {\<lfloor>100 * of_nat q / (of_nat n :: rat)\<rfloor>, \<lceil>100 * of_nat q / (of_nat n :: rat)\<rceil>})
       \<and> sorted reported \<and> (\<forall>v \<in> set reported. v \<le> 100) \<and> last reported = 100"
proof -
  let ?inner = "map (\<lambda>q. roundPercent q n) (filter (\<lambda>q. q mod 10 = 0) [1 ..< n + 1])"
  have eq: "reported = ?inner @ [100]"
    using validateModel_reported[OF assms(1)] assms(2,3) by simp
  have bound: "\<forall>v \<in> set ?inner. v \<le> 100"
  proof
    fix v assume "v \<in> set ?inner"
    then obtain q where q: "v = roundPercent q n" "1 \<le> q" "q < n + 1" by auto
    then have "0 < q" "q \<le> n" by simp_all
    then show "v \<le> 100" using q(1) roundPercent_le by simp
  qed
  have srt: "sorted ?inner"
  proof (cases "n = 0")
    case True
    then show ?thesis by simp
  next
    case False
    then have "0 < n" by simp
    from sorted_reported[OF this, of 1 "\<lambda>q. q mod 10 = 0" "n + 1"] show ?thesis
      by (simp only: One_nat_def)
  qed
  have pct: "\<forall>q \<in> {1 .. n}. int (roundPercent q n) \<in>
             {\<lfloor>100 * of_nat q / (of_nat n :: rat)\<rfloor>, \<lceil>100 * of_nat q / (of_nat n :: rat)\<rceil>}"
  proof
    fix q assume "q \<in> {1 .. n}"
    then have "0 < q" "q \<le> n" by simp_all
    then show "int (roundPercent q n) \<in>
             {\<lfloor>100 * of_nat q / (of_nat n :: rat)\<rfloor>, \<lceil>100 * of_nat q / (of_nat n :: rat)\<rceil>}"
      by (rule roundPercent_between)
  qed
  have s1: "sorted (?inner @ [100])" using srt bound by (simp add: sorted_append)
  have s2: "\<forall>v \<in> set (?inner @ [100]). v \<le> 100" using bound by simp
  have s3: "last (?inner @ [100]) = 100" by simp
  show ?thesis unfolding eq using pct s1 s2 s3 by blast
qed

theorem validateModel_progress_witness:
  "fst (snd (validateModel asciiRuntime deadLoader (idle (Some (plainMeshes 25))) [] True)) = [40, 80, 100]"
proof -
  have len: "25 = length (indexedMeshes (plainMeshes 25))"
    by (simp add: indexedMeshes_def plainMeshes_def plainMesh_def o_def)
  have cur: "currentModel (idle (Some (plainMeshes 25))) = Some (plainMeshes 25)"
    by (simp add: idle_def)
  have tens: "filter (\<lambda>q. q mod 10 = 0) [Suc 0 ..< 26] = [10, 20 :: nat]"
    by code_simp
  have vals: "roundPercent 10 25 = 40" "roundPercent 20 25 = 80"
    by code_simp+
  show ?thesis
    using validateModel_progress[OF cur len refl, of asciiRuntime deadLoader "[]", THEN conjunct1]
    by (simp add: tens vals)
qed

text \<open>
  The double arithmetic shows in the reported value: 230 of 400 is 57.5 percent, the
  double product is a little below that, and 57 is reported.
\<close>

lemma roundPercent_below_half: "roundPercent 230 400 = 57"
  by code_simp

section \<open>Validation: the result list\<close>

text \<open>
  The result list holds, in mesh order, the results of the elements that were validated
  and did not pass. When every \<open>requiredProperties\<close> entry of the rules names at least one
  property, each of them lists something.
\<close>

lemma validateLoop_results:
  "fst (snd (validateLoop J L rules cb t ms (p, res, rep))) =
     res @ List.map_filter
             (\<lambda>m. case validateElement J L m rules of None \<Rightarrow> None
                  | Some r \<Rightarrow> if passed r then None else Some r) ms"
  by (induction ms arbitrary: p res rep) (auto simp: Let_def List.map_filter_simps split: option.splits)

lemma validateModel_results:
  assumes "currentModel s = Some m"
  shows "fst (validateModel J L s rules cb) =
     Inr (List.map_filter
             (\<lambda>m. case validateElement J L m rules of None \<Rightarrow> None
                  | Some r \<Rightarrow> if passed r then None else Some r) (indexedMeshes m))"
proof -
  obtain p res rep where v: "validateLoop J L rules cb (length (indexedMeshes m)) (indexedMeshes m) (0, [], []) = (p, res, rep)"
    by (cases "validateLoop J L rules cb (length (indexedMeshes m)) (indexedMeshes m) (0, [], [])") auto
  have "res = List.map_filter
             (\<lambda>m. case validateElement J L m rules of None \<Rightarrow> None
                  | Some r \<Rightarrow> if passed r then None else Some r) (indexedMeshes m)"
    using validateLoop_results[of J L rules cb "length (indexedMeshes m)" "indexedMeshes m" 0 "[]" "[]"] v
    by simp
  then show ?thesis using assms v
    by (simp add: validateModel_def getCurrentModel_def Let_def)
qed

lemma validateModel_results_failing:
  assumes "currentModel s = Some m" and "fst (validateModel J L s rules cb) = Inr results"
  shows "(\<forall>r \<in> set results. \<not> passed r)
       \<and> length results = length (filter (\<lambda>m. \<exists>r. validateElement J L m rules = Some r \<and> \<not> passed r) (indexedMeshes m))
       \<and> length results \<le> length (indexedMeshes m)"
proof -
  let ?f = "\<lambda>m. case validateElement J L m rules of None \<Rightarrow> None
                  | Some r \<Rightarrow> if passed r then None else Some r"
  have r: "results = List.map_filter ?f (indexedMeshes m)"
    using validateModel_results[OF assms(1), of J L rules cb] assms(2) by simp
  have a: "\<forall>r \<in> set results. \<not> passed r"
    unfolding r by (auto simp: List.map_filter_def split: option.splits if_splits)
  have eqp: "(\<lambda>x. ?f x \<noteq> None) = (\<lambda>m. \<exists>r. validateElement J L m rules = Some r \<and> \<not> passed r)"
    by (rule ext) (auto split: option.splits)
  have b: "length results = length (filter (\<lambda>m. \<exists>r. validateElement J L m rules = Some r \<and> \<not> passed r) (indexedMeshes m))"
    unfolding r List.map_filter_def using eqp by simp
  then have c: "length results \<le> length (indexedMeshes m)"
    by simp
  show ?thesis using a b c by simp
qed

lemma validateModel_results_ids:
  assumes "currentModel s = Some m" and "fst (validateModel J L s rules cb) = Inr results"
      and "distinct (map (\<lambda>x. (or_zero (mesh_modelID x), mesh_expressID x)) (indexedMeshes m))"
  shows "distinct (map (\<lambda>r. (modelID r, elementID r)) results)"
proof -
  let ?f = "\<lambda>m. case validateElement J L m rules of None \<Rightarrow> None
                  | Some r \<Rightarrow> if passed r then None else Some r"
  have r: "results = List.map_filter ?f (indexedMeshes m)"
    using validateModel_results[OF assms(1), of J L rules cb] assms(2) by simp
  have id: "validateElement J L x rules = Some y \<Longrightarrow>
              elementID y = mesh_expressID x \<and> modelID y = or_zero (mesh_modelID x)" for x y
    using validateElement_Some[of J L x rules y] by auto
  have "map (\<lambda>r. (modelID r, elementID r)) (List.map_filter ?f ms)
        = map (\<lambda>x. (or_zero (mesh_modelID x), mesh_expressID x)) (filter (\<lambda>x. ?f x \<noteq> None) ms)" for ms
    by (induction ms) (auto simp: List.map_filter_simps id split: option.splits)
  then show ?thesis using assms(3) r by (simp add: distinct_map_filter)
qed

lemma validateElement_failing_lists_something:
  assumes "validateElement J L m rules = Some r" and "\<not> passed r"
      and "\<forall>rule \<in> set rules. \<forall>(k, l) \<in> set (requiredProperties rule). l \<noteq> []"
  shows "missingPsets r \<noteq> [] \<or> (\<exists>k. entryOf (missingProperties r) k \<noteq> [])"
proof -
  obtain normalized sets where
    a: "checkRules (Some sets) (applicableRules J normalized rules) ([], [], False)
             = Inr (missingPsets r, missingProperties r, True)"
    using validateElement_failing[OF assms(1,2)] by blast
  have "\<forall>rule \<in> set (applicableRules J normalized rules). \<forall>(k, l) \<in> set (requiredProperties rule). l \<noteq> []"
    using assms(3) by (auto simp: applicableRules_def)
  from checkRules_flag[OF a _ this] show ?thesis by simp
qed

text \<open>
  C9, evaluated where it breaks. The rule names \<^verbatim>\<open>Pset_WallCommon\<close> in
  \<open>requiredProperties\<close> with an empty list of names. The set is present without a
  \<^verbatim>\<open>HasProperties\<close> array: the branch for such a set raises the error flag although it
  pushes nothing, and the run returns an entry with \<open>passed = False\<close> in which
  \<open>missingPsets\<close> is empty and the only \<open>missingProperties\<close> entry is empty.
\<close>

theorem validateModel_failing_entry_nothing_missing:
  "validateModel asciiRuntime (wallLoader (Inr (Some [barePset]))) (idle (Some oneWall)) [nothingRule] False =
   (Inr [\<lparr>elementID = JNum 7, modelID = JNum 0, result_ifcClass = ''IFCWALLSTANDARDCASE'',
           missingPsets = [], missingProperties = [(''Pset_WallCommon'', [])],
           passed = False\<rparr>], [], [])"
  by (simp add: validateModel_def getCurrentModel_def idle_def indexedMeshes_def oneWall_def ev nothingRule_def)

section \<open>Property extraction: which failures are contained\<close>

text \<open>
  The three optional steps in closed form. Material resolution stops at the first
  association whose fetch fails and keeps what it had pushed. The fallback skips each
  association that fails and goes on; on a \<^verbatim>\<open>null\<close> list it appends nothing. Type
  resolution yields the type's record once that is fetched, with its property sets
  attached only when their fetch succeeds too.
\<close>

lemma collectMaterials_closed:
  "collectMaterials L mID assocs acc =
     acc @ filter (\<lambda>p. itype p = JStr ''IFCMATERIAL'' \<or> Name p \<noteq> None)
             (map (\<lambda>a. projr (getItemProperties L mID a))
                  (takeWhile (\<lambda>a. \<not> isl (getItemProperties L mID a)) assocs))"
  by (induction assocs arbitrary: acc) (auto split: sum.splits)

lemma fallbackPsets_null: "fallbackPsets L mID assocs None = None"
  by (induction assocs) (auto split: sum.splits)

lemma fallbackPsets_closed:
  "fallbackPsets L mID assocs (Some ps) =
     Some (ps @ List.map_filter
        (\<lambda>a. case getItemProperties L mID a of
                Inl e \<Rightarrow> None
              | Inr assocProps \<Rightarrow>
                  if itype assocProps = JStr ''IFCPROPERTYSET'' \<or> itype assocProps = JStr ''IFCELEMENTQUANTITY''
                  then (case getItemProperties L mID (item_expressID assocProps) of
                          Inl e \<Rightarrow> None | Inr fullSet \<Rightarrow> Some fullSet)
                  else None) assocs)"
  by (induction assocs arbitrary: ps) (auto simp: List.map_filter_simps split: sum.splits)

lemma fetchTypeProperties_closed:
  "fetchTypeProperties L mID properties =
     (if truthy (itype properties) then
        (case getItemProperties L mID (itype properties) of
           Inl e \<Rightarrow> None
         | Inr tp \<Rightarrow>
             Some \<lparr>type_item = tp,
                    type_propertySets =
                      (case getPropertySets L mID (itype properties) of
                         Inl e \<Rightarrow> None | Inr typePsets \<Rightarrow> Some typePsets)\<rparr>)
      else None)"
  by (simp add: fetchTypeProperties_def split: sum.splits)

text \<open>
  C2 (as the code has it). \<^verbatim>\<open>getElementProperties\<close> returns \<^verbatim>\<open>null\<close> exactly when the mesh
  has no \<^verbatim>\<open>expressID\<close>, or the base-property fetch fails, or the property-set fetch
  fails. In every other case it returns the bundle assembled from all the steps, and a
  failure inside material resolution, type resolution or fallback enrichment costs only
  what that step had not yet produced: the base properties and the identifiers are
  there; the materials are those of the associations that precede the first one whose
  fetch fails; the type data is the type's record when its fetch succeeds, with the
  type's property sets when their fetch succeeds too; and an empty list of property sets
  is filled with every associated property or quantity set whose two fetches succeed,
  while a non-empty list and a \<^verbatim>\<open>null\<close> are returned as they were fetched.
\<close>

theorem getElementProperties_null_iff:
  assumes "mID = or_zero (mesh_modelID m)" and "eID = mesh_expressID m"
  shows "((getElementProperties L m = None) =
            (eID = JUndefined \<or> isl (getItemProperties L mID eID) \<or> isl (getPropertySets L mID eID)))
       \<and> (\<forall>properties propertySets.
            eID \<noteq> JUndefined \<and> getItemProperties L mID eID = Inr properties
            \<and> getPropertySets L mID eID = Inr propertySets \<longrightarrow>
            getElementProperties L m =
              Some \<lparr>bundle_properties = properties,
                     bundle_propertySets =
                       (case HasAssociations properties of
                          None \<Rightarrow> propertySets
                        | Some assocs \<Rightarrow>
                            (case propertySets of
                               None \<Rightarrow> None
                             | Some [] \<Rightarrow>
                                 Some (List.map_filter
                                   (\<lambda>a. case getItemProperties L mID a of
                                           Inl e \<Rightarrow> None
                                         | Inr assocProps \<Rightarrow>
                                             if itype assocProps = JStr ''IFCPROPERTYSET''
                                                \<or> itype assocProps = JStr ''IFCELEMENTQUANTITY''
                                             then (case getItemProperties L mID (item_expressID assocProps) of
                                                     Inl e \<Rightarrow> None | Inr fullSet \<Rightarrow> Some fullSet)
                                             else None) assocs)
                             | Some (p # ps) \<Rightarrow> Some (p # ps))),
                     bundle_materials =
                       (case HasAssociations properties of
                          None \<Rightarrow> []
                        | Some assocs \<Rightarrow>
                            filter (\<lambda>p. itype p = JStr ''IFCMATERIAL'' \<or> Name p \<noteq> None)
                              (map (\<lambda>a. projr (getItemProperties L mID a))
                                   (takeWhile (\<lambda>a. \<not> isl (getItemProperties L mID a)) assocs))),
                     bundle_typeProperties =
                       (if truthy (itype properties) then
                          (case getItemProperties L mID (itype properties) of
                             Inl e \<Rightarrow> None
                           | Inr tp \<Rightarrow>
                               Some \<lparr>type_item = tp,
                                      type_propertySets =
                                        (case getPropertySets L mID (itype properties) of
                                           Inl e \<Rightarrow> None | Inr typePsets \<Rightarrow> Some typePsets)\<rparr>)
                        else None),
                     bundle_expressID = eID,
                     bundle_modelID = mID\<rparr>)"
  unfolding assms
  apply (intro conjI allI impI)
   apply (auto simp: getElementProperties_def Let_def split: sum.splits)[1]
  apply (simp add: getElementProperties_def Let_def fetchTypeProperties_closed collectMaterials_closed
            fallbackPsets_null fallbackPsets_closed
          split: option.splits list.splits)
  done

text \<open>
  On the wall with three associations the second association cannot be resolved and the
  property sets of the type are refused. The bundle still carries the material found
  before the failure, the type's record, and the quantity set found by the fallback
  after the failure.
\<close>

theorem getElementProperties_null_iff_witness:
  "isl (getItemProperties assocLoader (JNum 0) (JNum 51))
   \<and> isl (getPropertySets assocLoader (JNum 0) (JNum 900))
   \<and> getElementProperties assocLoader (plainMesh 7) =
       Some \<lparr>bundle_properties = typedWall,
              bundle_propertySets = Some [quantityItem],
              bundle_materials = [materialItem],
              bundle_typeProperties = Some \<lparr>type_item = wallTypeItem, type_propertySets = None\<rparr>,
              bundle_expressID = JNum 7, bundle_modelID = JNum 0\<rparr>"
proof -
  have ids: "JNum 0 = or_zero (mesh_modelID (plainMesh 7))" "JNum 7 = mesh_expressID (plainMesh 7)"
    by (simp_all add: plainMesh_def or_zero_def)
  have base: "getItemProperties assocLoader (JNum 0) (JNum 7) = Inr typedWall"
    by (simp add: assocLoader_def)
  have sets: "getPropertySets assocLoader (JNum 0) (JNum 7) = Inr (Some [])"
    by (simp add: assocLoader_def)
  have "JNum 7 \<noteq> JUndefined \<and> getItemProperties assocLoader (JNum 0) (JNum 7) = Inr typedWall
        \<and> getPropertySets assocLoader (JNum 0) (JNum 7) = Inr (Some [])"
    using base sets by simp
  with getElementProperties_null_iff[OF ids, of assocLoader]
  have "getElementProperties assocLoader (plainMesh 7) =
              Some \<lparr>bundle_properties = typedWall,
                     bundle_propertySets =
                       (case HasAssociations typedWall of
                          None \<Rightarrow> Some []
                        | Some assocs \<Rightarrow>
                            (case Some [] of
                               None \<Rightarrow> None
                             | Some [] \<Rightarrow>
                                 Some (List.map_filter
                                   (\<lambda>a. case getItemProperties assocLoader (JNum 0) a of
                                           Inl e \<Rightarrow> None
                                         | Inr assocProps \<Rightarrow>
                                             if itype assocProps = JStr ''IFCPROPERTYSET''
                                                \<or> itype assocProps = JStr ''IFCELEMENTQUANTITY''
                                             then (case getItemProperties assocLoader (JNum 0) (item_expressID assocProps) of
                                                     Inl e \<Rightarrow> None | Inr fullSet \<Rightarrow> Some fullSet)
                                             else None) assocs)
                             | Some (p # ps) \<Rightarrow> Some (p # ps))),
                     bundle_materials =
                       (case HasAssociations typedWall of
                          None \<Rightarrow> []
                        | Some assocs \<Rightarrow>
                            filter (\<lambda>p. itype p = JStr ''IFCMATERIAL'' \<or> Name p \<noteq> None)
                              (map (\<lambda>a. projr (getItemProperties assocLoader (JNum 0) a))
                                   (takeWhile (\<lambda>a. \<not> isl (getItemProperties assocLoader (JNum 0) a)) assocs))),
                     bundle_typeProperties =
                       (if truthy (itype typedWall) then
                          (case getItemProperties assocLoader (JNum 0) (itype typedWall) of
                             Inl e \<Rightarrow> None
                           | Inr tp \<Rightarrow>
                               Some \<lparr>type_item = tp,
                                      type_propertySets =
                                        (case getPropertySets assocLoader (JNum 0) (itype typedWall) of
                                           Inl e \<Rightarrow> None | Inr typePsets \<Rightarrow> Some typePsets)\<rparr>)
                        else None),
                     bundle_expressID = JNum 7,
                     bundle_modelID = JNum 0\<rparr>"
    by blast
  then show ?thesis
    by (simp add: assocLoader_def typedWall_def materialItem_def quantityItem_def wallTypeItem_def
          List.map_filter_simps)
qed

text \<open>
  C2 as stated lets only a failing base-property fetch give \<^verbatim>\<open>null\<close>. Here the base
  properties are fetched and the property-set fetch is rejected: the result is \<^verbatim>\<open>null\<close>.
\<close>

theorem getElementProperties_null_iff_counterexample:
  "getItemProperties (wallLoader (Inl Rejected)) (or_zero (mesh_modelID (plainMesh 7)))
       (mesh_expressID (plainMesh 7)) = Inr wallItem
   \<and> getElementProperties (wallLoader (Inl Rejected)) (plainMesh 7) = None"
  by (simp add: getElementProperties_def wallLoader_def plainMesh_def or_zero_def)

section \<open>Centring a model without meshes\<close>

text \<open>
  C3 (as the code has it). On a model without meshes \<^verbatim>\<open>centerModel\<close> does not fail: it
  prints a warning and returns with the model untouched. No offset is recorded: the
  \<open>offset\<close> property stays as it was (unset, for a model fresh from the parser), and with an
  unset offset a highlight subset is left unshifted.
\<close>

theorem centerModel_no_meshes:
  assumes "meshes m = []"
  shows "centerModel m = (m, [''No meshes found in model to center''])
       \<and> offset (fst (centerModel m)) = offset m
       \<and> (offset m = None \<longrightarrow> applyOffset (offset (fst (centerModel m))) sub = sub)"
  using assms by (simp add: centerModel_def applyOffset_def)

theorem centerModel_no_meshes_witness:
  "centerModel emptyModel = (emptyModel, [''No meshes found in model to center''])
   \<and> offset (fst (centerModel emptyModel)) = None
   \<and> applyOffset (offset (fst (centerModel emptyModel))) rawSubset = rawSubset"
proof -
  have bare: "meshes emptyModel = []" by (simp add: emptyModel_def)
  have unset: "offset emptyModel = None" by (simp add: emptyModel_def)
  from centerModel_no_meshes[OF bare, of rawSubset] unset show ?thesis by (simp add: applyOffset_def)
qed

text \<open>
  C3 as stated records a zero offset. The offset of the mesh-less model is still unset
  after centring, not the zero vector.
\<close>

theorem centerModel_no_meshes_counterexample:
  "meshes emptyModel = []
   \<and> offset (fst (centerModel emptyModel)) = None
   \<and> offset (fst (centerModel emptyModel)) \<noteq> Some (0, 0, 0)"
  by (simp add: centerModel_def emptyModel_def)

section \<open>Highlight and model replacement\<close>

lemma disposeCurrentModel_subset:
  "currentSubset (disposeCurrentModel s) = currentSubset s \<and> subset_calls (disposeCurrentModel s) = subset_calls s"
  by (simp add: disposeCurrentModel_def split: option.splits)

text \<open>
  C4 (as the code has it). \<^verbatim>\<open>loadIFC\<close> does not touch the highlight: whether the load
  succeeds or fails, \<open>currentSubset\<close> is what it was before, and no subset call is issued
  to the parser. A highlight made on the previous model is still recorded after the load.
\<close>

theorem loadIFC_keeps_highlight:
  "currentSubset (snd (loadIFC L url s)) = currentSubset s
   \<and> subset_calls (snd (loadIFC L url s)) = subset_calls s"
  using disposeCurrentModel_subset[of s]
  by (simp add: loadIFC_def Let_def split: sum.splits prod.splits)

theorem loadIFC_keeps_highlight_witness:
  "currentSubset (snd (loadIFC (subsetLoader False (Inr oneWall)) ''next.ifc'' (highlighted (Some shiftedModel))))
     = Some rawSubset"
  using loadIFC_keeps_highlight[of "subsetLoader False (Inr oneWall)" "''next.ifc''" "highlighted (Some shiftedModel)"]
  by (simp add: highlighted_def)

text \<open>
  C4 as stated has no highlight live after a load. Here a highlight is live, a load of
  another file succeeds, and the highlight of the previous model is still recorded.
\<close>

theorem loadIFC_keeps_highlight_counterexample:
  "\<not> isl (fst (loadIFC (subsetLoader False (Inr oneWall)) ''next.ifc'' (highlighted (Some shiftedModel))))
   \<and> currentSubset (snd (loadIFC (subsetLoader False (Inr oneWall)) ''next.ifc'' (highlighted (Some shiftedModel)))) \<noteq> None"
  by (simp add: loadIFC_def disposeCurrentModel_def highlighted_def subsetLoader_def Let_def
        split: prod.splits)

section \<open>Highlighting an element\<close>

lemma removeHighlight_model: "currentModel (removeHighlight L s) = currentModel s"
  by (simp add: removeHighlight_def Let_def split: option.splits)

lemma positions_translate: "positions (translate g t) = map (\<lambda>v. vadd v t) (positions g)"
  by (simp add: translate_def Let_def)

lemma vadd_vneg: "vadd (x, y, z) (vneg (cx, cy, cz)) = (x - cx, y - cy, z - cz)"
  by (simp add: vadd_def vneg_def)

lemma positions_shifted:
  "positions (translate g (vneg (cx, cy, cz))) = map (\<lambda>(x, y, z). (x - cx, y - cy, z - cz)) (positions g)"
  by (simp add: positions_translate vadd_def vneg_def split_def)

text \<open>
  C5 (as the code has it). With a live model, \<^verbatim>\<open>highlightElement\<close> asks the parser to
  remove a recorded highlight and then to create the new subset, in that order. When the
  parser returns a subset, it becomes the one recorded highlight: every vertex moved by
  the negated offset when the model has an offset and the subset a geometry, and left
  where it is otherwise. When the creation throws, the error is logged, and the highlight
  recorded afterwards is none if the removal went through (or there was nothing to
  remove), and the previous one if the removal threw: a removal that throws is only
  logged, and the previous highlight is not cleared.
\<close>

theorem highlightElement_shifts_subset:
  assumes live: "currentModel s = Some m"
      and thrown: "thrown = (\<exists>old. currentSubset s = Some old \<and> removeSubset_throws L (or_zero (subset_modelID old)))"
  shows "highlightElement L mID eID s =
           s\<lparr>subset_calls :=
                subset_calls s
                @ (case currentSubset s of None \<Rightarrow> [] | Some old \<Rightarrow> [RemoveSubset (or_zero (subset_modelID old))])
                @ [CreateSubset mID eID],
              currentSubset :=
                (case createSubset L mID eID of
                   Inr sub \<Rightarrow> Some (applyOffset (offset m) sub)
                 | Inl e \<Rightarrow> if thrown then currentSubset s else None),
              console :=
                console s
                @ (if thrown then [''Error removing highlight:''] else [])
                @ (case createSubset L mID eID of
                     Inr sub \<Rightarrow> [] | Inl e \<Rightarrow> [''Error creating highlight subset:''])\<rparr>
       \<and> (\<forall>sub cx cy cz g.
             createSubset L mID eID = Inr sub \<and> offset m = Some (cx, cy, cz) \<and> subset_geometry sub = Some g \<longrightarrow>
             (\<exists>g'. currentSubset (highlightElement L mID eID s) = Some (sub\<lparr>subset_geometry := Some g'\<rparr>)
                  \<and> positions g' = map (\<lambda>(x, y, z). (x - cx, y - cy, z - cz)) (positions g)))
       \<and> (\<forall>sub. createSubset L mID eID = Inr sub \<and> (offset m = None \<or> subset_geometry sub = None) \<longrightarrow>
             currentSubset (highlightElement L mID eID s) = Some sub)"
proof (intro conjI allI impI)
  show "highlightElement L mID eID s =
           s\<lparr>subset_calls :=
                subset_calls s
                @ (case currentSubset s of None \<Rightarrow> [] | Some old \<Rightarrow> [RemoveSubset (or_zero (subset_modelID old))])
                @ [CreateSubset mID eID],
              currentSubset :=
                (case createSubset L mID eID of
                   Inr sub \<Rightarrow> Some (applyOffset (offset m) sub)
                 | Inl e \<Rightarrow> if thrown then currentSubset s else None),
              console :=
                console s
                @ (if thrown then [''Error removing highlight:''] else [])
                @ (case createSubset L mID eID of
                     Inr sub \<Rightarrow> [] | Inl e \<Rightarrow> [''Error creating highlight subset:''])\<rparr>"
    using live thrown
    by (cases "currentSubset s"; cases "createSubset L mID eID")
       (simp_all add: highlightElement_def removeHighlight_def Let_def)
next
  fix sub cx cy cz g
  assume a: "createSubset L mID eID = Inr sub \<and> offset m = Some (cx, cy, cz) \<and> subset_geometry sub = Some g"
  have "currentSubset (highlightElement L mID eID s) = Some (sub\<lparr>subset_geometry := Some (translate g (vneg (cx, cy, cz)))\<rparr>)"
    using live a removeHighlight_model[of L s]
    by (simp add: highlightElement_def Let_def applyOffset_def)
  then show "\<exists>g'. currentSubset (highlightElement L mID eID s) = Some (sub\<lparr>subset_geometry := Some g'\<rparr>)
                  \<and> positions g' = map (\<lambda>(x, y, z). (x - cx, y - cy, z - cz)) (positions g)"
    using positions_shifted[of g cx cy cz] by blast
next
  fix sub
  assume a: "createSubset L mID eID = Inr sub \<and> (offset m = None \<or> subset_geometry sub = None)"
  then show "currentSubset (highlightElement L mID eID s) = Some sub"
    using live removeHighlight_model[of L s]
    by (auto simp: highlightElement_def Let_def applyOffset_def split: option.splits)
qed

theorem highlightElement_shifts_subset_witness:
  "highlightElement (subsetLoader False (Inr oneWall)) (JNum 0) (JNum 9) (highlighted (Some shiftedModel)) =
     \<lparr>currentModel = Some shiftedModel,
      currentSubset = Some \<lparr>subset_modelID = JNum 0,
                            subset_geometry = Some \<lparr>positions = [(1, 2, 3), (0, 0, 0)], boundingBox = None\<rparr>\<rparr>,
      scene = [],
      subset_calls = [CreateSubset (JNum 0) (JNum 7), RemoveSubset (JNum 0), CreateSubset (JNum 0) (JNum 9)],
      console = []\<rparr>"
proof -
  have cur: "currentModel (highlighted (Some shiftedModel)) = Some shiftedModel"
    by (simp add: highlighted_def)
  have thrown: "False = (\<exists>old. currentSubset (highlighted (Some shiftedModel)) = Some old
                    \<and> removeSubset_throws (subsetLoader False (Inr oneWall)) (or_zero (subset_modelID old)))"
    by (simp add: highlighted_def subsetLoader_def)
  show ?thesis
    using highlightElement_shifts_subset[OF cur thrown, of "JNum 0" "JNum 9"]
    by (simp add: highlighted_def subsetLoader_def rawSubset_def or_zero_def
          shiftedModel_def applyOffset_def translate_def vadd_def vneg_def Let_def)
qed

text \<open>
  C5 as stated has the previous highlight cleared in every call with a live model. Here a
  model is live and a highlight is recorded, the parser's \<^verbatim>\<open>removeSubset\<close> and
  \<^verbatim>\<open>createSubset\<close> both throw, and after the call the previous highlight is still the
  recorded one.
\<close>

theorem highlightElement_shifts_subset_counterexample:
  "currentModel (highlighted (Some shiftedModel)) = Some shiftedModel
   \<and> currentSubset (highlighted (Some shiftedModel)) = Some rawSubset
   \<and> currentSubset (highlightElement stuckLoader (JNum 0) (JNum 9) (highlighted (Some shiftedModel)))
       = Some rawSubset
   \<and> subset_calls (highlightElement stuckLoader (JNum 0) (JNum 9) (highlighted (Some shiftedModel)))
       = [CreateSubset (JNum 0) (JNum 7), RemoveSubset (JNum 0), CreateSubset (JNum 0) (JNum 9)]"
  by (simp add: highlightElement_def removeHighlight_def highlighted_def stuckLoader_def
        rawSubset_def or_zero_def Let_def)

section \<open>Highlighting without a model\<close>

lemma removeHighlight_calls:
  "subset_calls (removeHighlight L s) =
     subset_calls s @ (case currentSubset s of None \<Rightarrow> [] | Some old \<Rightarrow> [RemoveSubset (or_zero (subset_modelID old))])"
  by (simp add: removeHighlight_def Let_def split: option.splits)

lemma removeHighlight_cleared:
  "(currentSubset (removeHighlight L s) = None) =
     (\<forall>old. currentSubset s = Some old \<longrightarrow> \<not> removeSubset_throws L (or_zero (subset_modelID old)))"
  by (cases "currentSubset s") (simp_all add: removeHighlight_def Let_def)

text \<open>
  C10 (as the code has it). Without a live model \<^verbatim>\<open>highlightElement\<close> does what
  \<^verbatim>\<open>removeHighlight\<close> does and nothing more: no subset is created and nothing is thrown.
  No highlight is recorded afterwards exactly when the parser's \<^verbatim>\<open>removeSubset\<close> call, if
  one was made, did not throw.
\<close>

theorem highlightElement_no_model:
  assumes "currentModel s = None"
  shows "highlightElement L mID eID s = removeHighlight L s
       \<and> CreateSubset mID eID \<notin> set (subset_calls (highlightElement L mID eID s)) - set (subset_calls s)
       \<and> (currentSubset (highlightElement L mID eID s) = None) =
           (\<forall>old. currentSubset s = Some old \<longrightarrow>
                  \<not> removeSubset_throws L (or_zero (subset_modelID old)))"
proof -
  have same: "highlightElement L mID eID s = removeHighlight L s"
    using assms removeHighlight_model[of L s] by (simp add: highlightElement_def Let_def)
  have calls: "CreateSubset mID eID \<notin> set (subset_calls (removeHighlight L s)) - set (subset_calls s)"
    by (cases "currentSubset s") (simp_all add: removeHighlight_calls)
  show ?thesis using same calls removeHighlight_cleared[of L s] by simp
qed

theorem highlightElement_no_model_witness:
  "highlightElement (subsetLoader False (Inl Rejected)) (JNum 0) (JNum 9) (highlighted None) =
     \<lparr>currentModel = None, currentSubset = None, scene = [],
      subset_calls = [CreateSubset (JNum 0) (JNum 7), RemoveSubset (JNum 0)], console = []\<rparr>"
proof -
  have cur: "currentModel (highlighted None) = None"
    by (simp add: highlighted_def)
  show ?thesis
    using highlightElement_no_model[OF cur, of "subsetLoader False (Inl Rejected)" "JNum 0" "JNum 9"]
    by (simp add: removeHighlight_def highlighted_def subsetLoader_def rawSubset_def or_zero_def Let_def)
qed

text \<open>
  C10 as stated leaves no highlight live in every case. When \<^verbatim>\<open>removeSubset\<close> throws, the
  handler only logs the error, and the previous highlight is still recorded on return.
\<close>

theorem highlightElement_no_model_counterexample:
  "currentModel (highlighted None) = None
   \<and> currentSubset (highlightElement (subsetLoader True (Inl Rejected)) (JNum 0) (JNum 9) (highlighted None))
       = Some rawSubset"
  by (simp add: highlightElement_def removeHighlight_def highlighted_def subsetLoader_def Let_def)

end
